theory Spec2Isabelle
  imports Main "HOL-Library.Word" "HOL-Library.Sublist" "HOL-Library.Multiset"
begin

section \<open>The Go library functions the assembler calls\<close>

text \<open>
  A Go string is a sequence of bytes, here a \<^typ>\<open>char list\<close>; \<open>len\<close> and indexing count
  bytes. A rune is a Unicode code point, here a natural number.
\<close>

type_synonym rune = nat

definition byte :: "char \<Rightarrow> nat" where
  "byte c = of_char c"

subsection \<open>utf8: the runes of a string\<close>

definition RuneError :: rune where
  "RuneError = 0xFFFD"

text \<open>
  \<open>utf8.DecodeRuneInString\<close>, which is also what \<open>for _, r := range s\<close> does at each
  position: the rune at the front of the string and its width in bytes. A byte that starts
  no valid encoding gives \<open>RuneError\<close> with width 1.
\<close>

fun DecodeRuneInString :: "string \<Rightarrow> rune \<times> nat" where
  "DecodeRuneInString [] = (RuneError, 0)"
| "DecodeRuneInString (c0 # cs) =
     (let s0 = byte c0 in
      if s0 < 0x80 then (s0, 1)
      else if s0 < 0xC2 \<or> 0xF4 < s0 then (RuneError, 1)
      else
        let sz = (if s0 < 0xE0 then 2 else if s0 < 0xF0 then 3 else 4 :: nat);
            lo = (if s0 = 0xE0 then 0xA0 else if s0 = 0xF0 then 0x90 else 0x80 :: nat);
            hi = (if s0 = 0xED then 0x9F else if s0 = 0xF4 then 0x8F else 0xBF :: nat)
        in
          if length (c0 # cs) < sz then (RuneError, 1)
          else
            let s1 = byte (cs ! 0) in
            if s1 < lo \<or> hi < s1 then (RuneError, 1)
            else if sz \<le> 2 then ((s0 mod 32) * 64 + s1 mod 64, 2)
            else
              let s2 = byte (cs ! 1) in
              if s2 < 0x80 \<or> 0xBF < s2 then (RuneError, 1)
              else if sz \<le> 3 then ((s0 mod 16) * 4096 + (s1 mod 64) * 64 + s2 mod 64, 3)
              else
                let s3 = byte (cs ! 2) in
                if s3 < 0x80 \<or> 0xBF < s3 then (RuneError, 1)
                else ((s0 mod 8) * 262144 + (s1 mod 64) * 4096 + (s2 mod 64) * 64
                        + s3 mod 64, 4))"

subsection \<open>unicode: character classes\<close>

text \<open>
  \<open>unicode.IsLetter\<close> and \<open>unicode.IsDigit\<close> answer from fixed code for the runes up
  to U+00FF and from the range tables of the Unicode version the Go release ships for the
  others. Those tables are not part of the repository; they are a parameter of the model.
\<close>

record unicodeTables =
  Letter :: "rune \<Rightarrow> bool"
  Digit :: "rune \<Rightarrow> bool"

definition IsLetter :: "unicodeTables \<Rightarrow> rune \<Rightarrow> bool" where
  "IsLetter ut r =
     (if r \<le> 0xFF then
        (0x41 \<le> r \<and> r \<le> 0x5A) \<or> (0x61 \<le> r \<and> r \<le> 0x7A) \<or> r = 0xAA \<or> r = 0xB5
          \<or> r = 0xBA \<or> (0xC0 \<le> r \<and> r \<le> 0xD6) \<or> (0xD8 \<le> r \<and> r \<le> 0xF6) \<or> 0xF8 \<le> r
      else Letter ut r)"

definition IsDigit :: "unicodeTables \<Rightarrow> rune \<Rightarrow> bool" where
  "IsDigit ut r = (if r \<le> 0xFF then 0x30 \<le> r \<and> r \<le> 0x39 else Digit ut r)"

subsection \<open>strings: Cut, TrimSpace, Trim\<close>

text \<open>\<open>strings.Cut\<close>: the text before and after the first occurrence of \<open>sep\<close>.\<close>

fun Cut :: "string \<Rightarrow> string \<Rightarrow> string \<times> string \<times> bool" where
  "Cut [] sep = ([], [], sep = [])"
| "Cut (c # cs) sep =
     (if prefix sep (c # cs) then ([], drop (length sep) (c # cs), True)
      else case Cut cs sep of
             (before, after, found) \<Rightarrow>
               if found then (c # before, after, True) else (c # cs, [], False))"

text \<open>
  The UTF-8 encodings of the runes that \<open>unicode.IsSpace\<close> accepts: tab, line feed,
  vertical tab, form feed, carriage return, space, U+0085, U+00A0, U+1680, U+2000 to
  U+200A, U+2028, U+2029, U+202F, U+205F and U+3000.
\<close>

definition whiteSpace :: "nat list list" where
  "whiteSpace =
     [[0x09], [0x0A], [0x0B], [0x0C], [0x0D], [0x20], [0xC2, 0x85], [0xC2, 0xA0],
      [0xE1, 0x9A, 0x80],
      [0xE2, 0x80, 0x80], [0xE2, 0x80, 0x81], [0xE2, 0x80, 0x82], [0xE2, 0x80, 0x83],
      [0xE2, 0x80, 0x84], [0xE2, 0x80, 0x85], [0xE2, 0x80, 0x86], [0xE2, 0x80, 0x87],
      [0xE2, 0x80, 0x88], [0xE2, 0x80, 0x89], [0xE2, 0x80, 0x8A],
      [0xE2, 0x80, 0xA8], [0xE2, 0x80, 0xA9], [0xE2, 0x80, 0xAF], [0xE2, 0x81, 0x9F],
      [0xE3, 0x80, 0x80]]"

text \<open>The width in bytes of the white-space rune a byte sequence starts with, 0 if none.\<close>

definition spaceWidth :: "nat list \<Rightarrow> nat" where
  "spaceWidth bs = (case find (\<lambda>e. prefix e bs) whiteSpace of None \<Rightarrow> 0 | Some e \<Rightarrow> length e)"

definition spaceWidthEnd :: "nat list \<Rightarrow> nat" where
  "spaceWidthEnd bs =
     (case find (\<lambda>e. prefix (rev e) (rev bs)) whiteSpace of None \<Rightarrow> 0 | Some e \<Rightarrow> length e)"

lemma spaceWidth_le: "spaceWidth bs \<le> length bs"
  unfolding spaceWidth_def
  by (auto split: option.splits simp: find_Some_iff prefix_length_le)

lemma spaceWidthEnd_le: "spaceWidthEnd bs \<le> length bs"
  unfolding spaceWidthEnd_def
  by (auto split: option.splits simp: find_Some_iff dest: prefix_length_le)

function trimLeftSpace :: "string \<Rightarrow> string" where
  "trimLeftSpace s =
     (let w = spaceWidth (map byte (take 3 s)) in
      if w = 0 then s else trimLeftSpace (drop w s))"
  by pat_completeness auto
termination
proof (relation "measure length")
  show "wf (measure length)" by simp
next
  fix s :: string and w :: nat
  assume w: "w = spaceWidth (map byte (take 3 s))" and nz: "w \<noteq> 0"
  from spaceWidth_le [of "map byte (take 3 s)"] w nz have "s \<noteq> []"
    by auto
  with nz show "(drop w s, s) \<in> measure length"
    by simp
qed

function trimRightSpace :: "string \<Rightarrow> string" where
  "trimRightSpace s =
     (let w = spaceWidthEnd (map byte (drop (length s - 3) s)) in
      if w = 0 then s else trimRightSpace (take (length s - w) s))"
  by pat_completeness auto
termination
proof (relation "measure length")
  show "wf (measure length)" by simp
next
  fix s :: string and w :: nat
  assume w: "w = spaceWidthEnd (map byte (drop (length s - 3) s))" and nz: "w \<noteq> 0"
  from spaceWidthEnd_le [of "map byte (drop (length s - 3) s)"] w nz have "s \<noteq> []"
    by auto
  with nz show "(take (length s - w) s, s) \<in> measure length"
    by simp
qed

declare trimLeftSpace.simps [simp del] trimRightSpace.simps [simp del]

text \<open>\<open>strings.TrimSpace\<close>: all leading and trailing white space, as Unicode defines it, removed.\<close>

definition TrimSpace :: "string \<Rightarrow> string" where
  "TrimSpace s = trimRightSpace (trimLeftSpace s)"

text \<open>
  \<open>strings.Trim\<close> for a cutset of ASCII characters (the assembler's only cutset is
  \<open>"()"\<close>): every leading and trailing byte that is in the cutset is removed.
\<close>

definition Trim :: "string \<Rightarrow> string \<Rightarrow> string" where
  "Trim s cutset =
     rev (dropWhile (\<lambda>c. c \<in> set cutset) (rev (dropWhile (\<lambda>c. c \<in> set cutset) s)))"

subsection \<open>strconv.ParseUint in base 10\<close>

datatype numError = ErrSyntax | ErrRange

definition maxUint64 :: nat where
  "maxUint64 = 2 ^ 64 - 1"

text \<open>
  The digit loop of \<open>strconv.ParseUint\<close> for base 10. The accumulator is a \<open>uint64\<close> in
  Go; it is compared with \<open>cutoff\<close> before the multiplication and with \<open>maxVal\<close> after
  the addition, so it never wraps and a natural number carries the same values: the sum
  wraps in Go exactly when it exceeds \<open>maxUint64\<close>, which is at least \<open>maxVal\<close>.
\<close>

fun parseDigits :: "nat \<Rightarrow> string \<Rightarrow> nat \<Rightarrow> numError + nat" where
  "parseDigits maxVal [] n = Inr n"
| "parseDigits maxVal (c # cs) n =
     (if \<not> (0x30 \<le> byte c \<and> byte c \<le> 0x39) then Inl ErrSyntax
      else
        let d = byte c - 0x30 in
        if n \<ge> maxUint64 div 10 + 1 then Inl ErrRange
        else
          let n1 = n * 10 + d in
          if n1 > maxVal then Inl ErrRange else parseDigits maxVal cs n1)"

definition ParseUint10 :: "string \<Rightarrow> nat \<Rightarrow> numError + nat" where
  "ParseUint10 s bitSize =
     (if s = [] then Inl ErrSyntax else parseDigits (2 ^ bitSize - 1) s 0)"

subsection \<open>fmt: the verb \<open>%016b\<close> on a \<open>uint16\<close>\<close>

function binaryDigits :: "nat \<Rightarrow> string" where
  "binaryDigits u =
     (if u < 2 then [if u = 0 then CHR ''0'' else CHR ''1'']
      else binaryDigits (u div 2) @ [if u mod 2 = 0 then CHR ''0'' else CHR ''1''])"
  by pat_completeness auto
termination
  by (relation "measure id") auto

declare binaryDigits.simps [simp del]

text \<open>The binary digits of the value, padded on the left with zeros to 16 characters.\<close>

definition fmt016b :: "16 word \<Rightarrow> string" where
  "fmt016b v =
     (let ds = binaryDigits (unat v) in replicate (16 - length ds) (CHR ''0'') @ ds)"

subsection \<open>bufio.Scanner with the default line splitter\<close>

text \<open>The input cut at every line feed; a last line without line feed counts if it is not empty.\<close>

fun rawLines :: "string \<Rightarrow> string \<Rightarrow> string list" where
  "rawLines [] cur = (if cur = [] then [] else [cur])"
| "rawLines (c # cs) cur =
     (if c = CHR 0x0A then cur # rawLines cs [] else rawLines cs (cur @ [c]))"

definition dropCR :: "string \<Rightarrow> string" where
  "dropCR l = (if l \<noteq> [] \<and> last l = CHR 0x0D then butlast l else l)"

definition MaxScanTokenSize :: nat where
  "MaxScanTokenSize = 64 * 1024"

text \<open>
  The tokens \<open>s.Scan()\<close> yields, one per line, without the line terminator. A scanner's
  buffer holds at most \<open>MaxScanTokenSize\<close> bytes: at the first line that does not fit,
  \<open>Scan\<close> returns false for good (the error is \<open>ErrTooLong\<close>, which \<open>parse\<close> does not
  look at), so the lines from there on are never seen.
\<close>

definition Scan :: "string \<Rightarrow> string list" where
  "Scan r = map dropCR (takeWhile (\<lambda>l. length l < MaxScanTokenSize) (rawLines r []))"

section \<open>The instructions\<close>

text \<open>\<open>label\<close> is a label declaration, a pseudo-instruction that is not translated.\<close>

record label =
  Literal :: string

text \<open>An A-instruction is a constant or a symbol, pre- or user-defined.\<close>

record aInstruction =
  Literal :: string
  IsSymbol :: bool
  Value :: "16 word"

text \<open>A C-instruction is a computation of the form dest=comp;jump.\<close>

record cInstruction =
  Dest :: string
  Comp :: string
  Jump :: string

text \<open>
  The values of the interface \<open>instruction\<close> that \<open>parse\<close> builds: pointers to the three
  structs.
\<close>

datatype instruction =
    AIns aInstruction
  | CIns cInstruction
  | LabelIns label

section \<open>Errors\<close>

text \<open>
  The Go code builds its errors with \<open>errors.New\<close> and \<open>fmt.Errorf\<close>; each constructor
  below stands for the messages of one kind, and its argument says which return
  statement it was.
\<close>

datatype parseFault =
    MissingConstantOrSymbol
  | NotUnsigned15Bit numError
  | IllegalCharacter
  | LabelTooShort
  | MissingLeadingParen
  | MissingClosingParen

datatype mnemonicField = ABit | CBits | DBits | JBits

datatype writeFault = ShortWrite nat | SinkFailed

datatype error =
    ParseError parseFault
  | DuplicateLabelError string
  | ReservedSymbolError string
  | UnknownMnemonicError mnemonicField string
  | WriteError writeFault

section \<open>Parsing\<close>

definition validSymbolChars :: "unicodeTables \<Rightarrow> rune \<Rightarrow> bool" where
  "validSymbolChars ut r \<longleftrightarrow>
     IsLetter ut r \<or> IsDigit ut r \<or> r = byte (CHR ''_'') \<or> r = byte (CHR ''.'')
       \<or> r = byte (CHR ''$'') \<or> r = byte (CHR '':'')"

lemma DecodeRuneInString_width: "s \<noteq> [] \<Longrightarrow> DecodeRuneInString s = (r, w) \<Longrightarrow> 0 < w"
  by (cases s) (auto simp: Let_def split: if_splits)

text \<open>\<open>containsOnly\<close> returns true if every rune in \<open>s\<close> satisfies \<open>f\<close>.\<close>

function containsOnly :: "string \<Rightarrow> (rune \<Rightarrow> bool) \<Rightarrow> bool" where
  "containsOnly s f =
     (if s = [] then True
      else case DecodeRuneInString s of
             (r, w) \<Rightarrow> if \<not> f r then False else containsOnly (drop w s) f)"
  by pat_completeness auto
termination
proof (relation "measure (\<lambda>(s, f). length s)", goal_cases)
  case 1
  show ?case by simp
next
  case (2 s f r w)
  from 2(1) 2(2) [symmetric] have "0 < w"
    by (rule DecodeRuneInString_width)
  with 2(1) show ?case
    by (cases s) simp_all
qed

declare containsOnly.simps [simp del]

definition parseAInstruction :: "unicodeTables \<Rightarrow> string \<Rightarrow> error + aInstruction" where
  "parseAInstruction ut inp =
     (if length inp < 2 then Inl (ParseError MissingConstantOrSymbol)
      else
        let inp = drop 1 inp in
        if IsDigit ut (byte (hd inp)) then
          (case ParseUint10 inp 15 of
             Inl err \<Rightarrow> Inl (ParseError (NotUnsigned15Bit err))
           | Inr v \<Rightarrow> Inr \<lparr>Literal = inp, IsSymbol = False, Value = of_nat v\<rparr>)
        else if \<not> containsOnly inp (validSymbolChars ut) then Inl (ParseError IllegalCharacter)
        else Inr \<lparr>Literal = inp, IsSymbol = True, Value = 0\<rparr>)"

definition parseCInstruction :: "string \<Rightarrow> error + cInstruction" where
  "parseCInstruction inp =
     (case Cut inp ''='' of
        (dest0, rest0, foundEquals) \<Rightarrow>
          let dest = (if \<not> foundEquals then [] else dest0);
              rest = (if \<not> foundEquals then inp else rest0)
          in case Cut rest '';'' of
               (cmp, jump, foundSemicolon) \<Rightarrow>
                 Inr \<lparr>Dest = TrimSpace dest, Comp = TrimSpace cmp, Jump = TrimSpace jump\<rparr>)"

definition parseLabel :: "unicodeTables \<Rightarrow> string \<Rightarrow> error + label" where
  "parseLabel ut inp =
     (if length inp < 3 then Inl (ParseError LabelTooShort)
      else if hd inp \<noteq> CHR ''('' then Inl (ParseError MissingLeadingParen)
      else if last inp \<noteq> CHR '')'' then Inl (ParseError MissingClosingParen)
      else
        let inp = Trim inp ''()'' in
        if \<not> containsOnly inp (validSymbolChars ut) then Inl (ParseError IllegalCharacter)
        else Inr \<lparr>label.Literal = inp\<rparr>)"

text \<open>The body of the loop of \<open>parse\<close> over the scanned lines.\<close>

fun parseLines :: "unicodeTables \<Rightarrow> string list \<Rightarrow> instruction list \<Rightarrow> error + instruction list"
  where
  "parseLines ut [] instructions = Inr instructions"
| "parseLines ut (text # rest) instructions =
     (case Cut text ''//'' of
        (line, _, _) \<Rightarrow>
          let command = TrimSpace line in
          if length command = 0 then parseLines ut rest instructions
          else if hd command = CHR ''@'' then
            (case parseAInstruction ut command of
               Inl err \<Rightarrow> Inl err
             | Inr ins \<Rightarrow> parseLines ut rest (instructions @ [AIns ins]))
          else if hd command = CHR ''('' then
            (case parseLabel ut command of
               Inl err \<Rightarrow> Inl err
             | Inr ins \<Rightarrow> parseLines ut rest (instructions @ [LabelIns ins]))
          else
            (case parseCInstruction command of
               Inl err \<Rightarrow> Inl err
             | Inr ins \<Rightarrow> parseLines ut rest (instructions @ [CIns ins])))"

text \<open>
  \<open>parse\<close> parses hack assembly into instructions including the pseudo-instruction label.
  The reader is given by the bytes it delivers.
\<close>

definition parse :: "unicodeTables \<Rightarrow> string \<Rightarrow> error + instruction list" where
  "parse ut r = parseLines ut (Scan r) []"

section \<open>Encoding\<close>

text \<open>
  A Go map is a finite map; \<open>range\<close> visits its entries in an order that is not
  specified and may differ from run to run. The entries of \<open>predefinedSymbols\<close>:
\<close>

definition predefinedEntries :: "(string \<times> 16 word) list" where
  "predefinedEntries =
     [(''SP'', 0), (''LCL'', 1), (''ARG'', 2), (''THIS'', 3), (''THAT'', 4),
      (''R0'', 0), (''R1'', 1), (''R2'', 2), (''R3'', 3), (''R4'', 4), (''R5'', 5),
      (''R6'', 6), (''R7'', 7), (''R8'', 8), (''R9'', 9), (''R10'', 10), (''R11'', 11),
      (''R12'', 12), (''R13'', 13), (''R14'', 14), (''R15'', 15),
      (''SCREEN'', 16384), (''KBD'', 24576)]"

type_synonym symbolTable = "string \<rightharpoonup> 16 word"

definition predefinedSymbols :: symbolTable where
  "predefinedSymbols = map_of predefinedEntries"

definition compToA :: "string \<rightharpoonup> string" where
  "compToA = map_of
     [(''0'', ''0''), (''1'', ''0''), (''-1'', ''0''), (''D'', ''0''), (''A'', ''0''),
      (''!D'', ''0''), (''!A'', ''0''), (''-D'', ''0''), (''-A'', ''0''), (''D+1'', ''0''),
      (''A+1'', ''0''), (''D-1'', ''0''), (''A-1'', ''0''), (''D+A'', ''0''),
      (''D-A'', ''0''), (''A-D'', ''0''), (''D&A'', ''0''), (''D|A'', ''0''),
      (''M'', ''1''), (''!M'', ''1''), (''-M'', ''1''), (''M+1'', ''1''), (''M-1'', ''1''),
      (''D+M'', ''1''), (''D-M'', ''1''), (''M-D'', ''1''), (''D&M'', ''1''),
      (''D|M'', ''1'')]"

definition compToC :: "string \<rightharpoonup> string" where
  "compToC = map_of
     [(''0'', ''101010''), (''1'', ''111111''), (''-1'', ''111010''), (''D'', ''001100''),
      (''A'', ''110000''), (''!D'', ''001101''), (''!A'', ''110001''), (''-D'', ''001111''),
      (''-A'', ''110011''), (''D+1'', ''011111''), (''A+1'', ''110111''),
      (''D-1'', ''001110''), (''A-1'', ''110010''), (''D+A'', ''000010''),
      (''D-A'', ''010011''), (''A-D'', ''000111''), (''D&A'', ''000000''),
      (''D|A'', ''010101''),
      (''M'', ''110000''), (''!M'', ''110001''), (''-M'', ''110011''), (''M+1'', ''110111''),
      (''M-1'', ''110010''), (''D+M'', ''000010''), (''D-M'', ''010011''),
      (''M-D'', ''000111''), (''D&M'', ''000000''), (''D|M'', ''010101'')]"

definition destToD :: "string \<rightharpoonup> string" where
  "destToD = map_of
     [(''M'', ''001''), (''D'', ''010''), (''MD'', ''011''), (''A'', ''100''),
      (''AM'', ''101''), (''AD'', ''110''), (''AMD'', ''111'')]"

definition jumpToJ :: "string \<rightharpoonup> string" where
  "jumpToJ = map_of
     [(''JGT'', ''001''), (''JEQ'', ''010''), (''JGE'', ''011''), (''JLT'', ''100''),
      (''JNE'', ''101''), (''JLE'', ''110''), (''JMP'', ''111'')]"

definition codeAInstruction :: "aInstruction \<Rightarrow> 16 word" where
  "codeAInstruction instruction = Value instruction"

definition codeCInstruction :: "cInstruction \<Rightarrow> error + string" where
  "codeCInstruction instruction =
     (case compToA (Comp instruction) of
        None \<Rightarrow> Inl (UnknownMnemonicError ABit (Comp instruction))
      | Some aBit \<Rightarrow>
          (case compToC (Comp instruction) of
             None \<Rightarrow> Inl (UnknownMnemonicError CBits (Comp instruction))
           | Some cBits \<Rightarrow>
               (case (if Dest instruction \<noteq> [] then destToD (Dest instruction)
                      else Some ''000'') of
                  None \<Rightarrow> Inl (UnknownMnemonicError DBits (Dest instruction))
                | Some dBits \<Rightarrow>
                    (case (if Jump instruction \<noteq> [] then jumpToJ (Jump instruction)
                           else Some ''000'') of
                       None \<Rightarrow> Inl (UnknownMnemonicError JBits (Jump instruction))
                     | Some jBits \<Rightarrow> Inr (''111'' @ aBit @ cBits @ dBits @ jBits)))))"

text \<open>
  An \<open>io.Writer\<close> is given by what one \<open>Write\<close> does to the sink: the new state of the
  sink, the number of bytes written and whether it returned an error. \<open>fmt.Fprintf\<close>
  formats into a buffer of its own, hands it to the writer in one \<open>Write\<close> and returns
  what that returns.
\<close>

type_synonym 'w writer = "'w \<Rightarrow> string \<Rightarrow> 'w \<times> nat \<times> bool"

definition Fprintf :: "'w writer \<Rightarrow> 'w \<Rightarrow> string \<Rightarrow> 'w \<times> nat \<times> bool" where
  "Fprintf wr out formatted = wr out formatted"

text \<open>A \<open>bytes.Buffer\<close> (the sink of the tests) appends and never fails.\<close>

definition bufferWrite :: "string writer" where
  "bufferWrite buf p = (buf @ p, length p, False)"

text \<open>
  The first loop of \<open>code\<close>: every label is bound to the program counter, a \<open>uint16\<close>
  that counts the instructions that are not labels.
\<close>

fun codeLabels :: "instruction list \<Rightarrow> 16 word \<Rightarrow> symbolTable \<Rightarrow> error + symbolTable" where
  "codeLabels [] pc symbolTable = Inr symbolTable"
| "codeLabels (LabelIns v # rest) pc symbolTable =
     (if symbolTable (label.Literal v) \<noteq> None then Inl (DuplicateLabelError (label.Literal v))
      else if predefinedSymbols (label.Literal v) \<noteq> None
        then Inl (ReservedSymbolError (label.Literal v))
      else codeLabels rest pc (symbolTable(label.Literal v \<mapsto> pc)))"
| "codeLabels (_ # rest) pc symbolTable = codeLabels rest (pc + 1) symbolTable"

text \<open>
  The second loop of \<open>code\<close>, \<open>for k, v := range predefinedSymbols\<close>, with the order in
  which \<open>range\<close> visits the entries.
\<close>

definition rangeStore :: "(string \<times> 16 word) list \<Rightarrow> symbolTable \<Rightarrow> symbolTable" where
  "rangeStore order symbolTable = foldl (\<lambda>m (k, v). m(k \<mapsto> v)) symbolTable order"

text \<open>
  The resolution of an A-instruction in the third loop: a symbol that the table does not
  hold becomes a variable at the next variable address, a \<open>uint16\<close>.
\<close>

definition resolve ::
  "aInstruction \<Rightarrow> symbolTable \<Rightarrow> 16 word \<Rightarrow> aInstruction \<times> symbolTable \<times> 16 word" where
  "resolve ins symbolTable nextVariableAddress =
     (if IsSymbol ins then
        (case symbolTable (Literal ins) of
           Some v \<Rightarrow> (\<lparr>Literal = [], IsSymbol = False, Value = v\<rparr>, symbolTable,
                      nextVariableAddress)
         | None \<Rightarrow>
             (\<lparr>Literal = [], IsSymbol = False, Value = nextVariableAddress\<rparr>,
              symbolTable(Literal ins \<mapsto> nextVariableAddress), nextVariableAddress + 1))
      else (ins, symbolTable, nextVariableAddress))"

text \<open>
  The third loop of \<open>code\<close>. It returns the error, if any, with the symbol table, the
  next variable address and the sink as they are when the loop is left.
\<close>

fun codeEmit ::
  "'w writer \<Rightarrow> instruction list \<Rightarrow> symbolTable \<Rightarrow> 16 word \<Rightarrow> 'w
     \<Rightarrow> error option \<times> symbolTable \<times> 16 word \<times> 'w" where
  "codeEmit wr [] symbolTable nextVariableAddress out =
     (None, symbolTable, nextVariableAddress, out)"
| "codeEmit wr (AIns ins # rest) symbolTable nextVariableAddress out =
     (case resolve ins symbolTable nextVariableAddress of
        (ains, symbolTable', nextVariableAddress') \<Rightarrow>
          (case Fprintf wr out (fmt016b (codeAInstruction ains) @ [CHR 0x0A]) of
             (out', n, err) \<Rightarrow>
               if n \<noteq> 17 then
                 (Some (WriteError (ShortWrite n)), symbolTable', nextVariableAddress', out')
               else if err then
                 (Some (WriteError SinkFailed), symbolTable', nextVariableAddress', out')
               else codeEmit wr rest symbolTable' nextVariableAddress' out'))"
| "codeEmit wr (CIns ins # rest) symbolTable nextVariableAddress out =
     (case codeCInstruction ins of
        Inl err \<Rightarrow> (Some err, symbolTable, nextVariableAddress, out)
      | Inr encoded \<Rightarrow>
          (case Fprintf wr out (encoded @ [CHR 0x0A]) of
             (out', n, err) \<Rightarrow>
               if n \<noteq> 17 then
                 (Some (WriteError (ShortWrite n)), symbolTable, nextVariableAddress, out')
               else if err then
                 (Some (WriteError SinkFailed), symbolTable, nextVariableAddress, out')
               else codeEmit wr rest symbolTable nextVariableAddress out'))"
| "codeEmit wr (LabelIns ins # rest) symbolTable nextVariableAddress out =
     codeEmit wr rest symbolTable nextVariableAddress out"

text \<open>
  \<open>code\<close> translates instructions into machine code. Labels do not result in an
  instruction in machine code. Symbolic references in A-instructions are resolved into
  memory addresses at this stage. The result is the error returned, if any, and the sink.
\<close>

definition code ::
  "(string \<times> 16 word) list \<Rightarrow> 'w writer \<Rightarrow> instruction list \<Rightarrow> 'w \<Rightarrow> error option \<times> 'w" where
  "code order wr instructions out =
     (case codeLabels instructions 0 Map.empty of
        Inl err \<Rightarrow> (Some err, out)
      | Inr symbolTable \<Rightarrow>
          (case codeEmit wr instructions (rangeStore order symbolTable) 16 out of
             (err, _, _, out') \<Rightarrow> (err, out')))"

text \<open>
  \<open>Assemble\<close> translates hack assembly into machine code for the hack CPU, written as
  text.
\<close>

definition Assemble ::
  "unicodeTables \<Rightarrow> (string \<times> 16 word) list \<Rightarrow> 'w writer \<Rightarrow> string \<Rightarrow> 'w \<Rightarrow> error option \<times> 'w"
  where
  "Assemble ut order wr r out =
     (case parse ut r of
        Inl err \<Rightarrow> (Some err, out)
      | Inr instructions \<Rightarrow> code order wr instructions out)"

section \<open>Notions for stating the properties\<close>

text \<open>The number a string of binary digits denotes, most significant digit first.\<close>

definition binaryValue :: "string \<Rightarrow> nat" where
  "binaryValue s = foldl (\<lambda>a c. 2 * a + (if c = CHR ''1'' then 1 else 0)) 0 s"

text \<open>Whether an instruction is a label declaration.\<close>

fun isLabel :: "instruction \<Rightarrow> bool" where
  "isLabel (LabelIns l) = True"
| "isLabel _ = False"

text \<open>The literals of the label declarations of a sequence, in order.\<close>

fun labelsDeclared :: "instruction list \<Rightarrow> string list" where
  "labelsDeclared [] = []"
| "labelsDeclared (LabelIns l # rest) = label.Literal l # labelsDeclared rest"
| "labelsDeclared (_ # rest) = labelsDeclared rest"

text \<open>
  The number of instructions that are not label declarations and stand strictly before
  position \<open>i\<close> of the sequence.
\<close>

definition instructionsBefore :: "instruction list \<Rightarrow> nat \<Rightarrow> nat" where
  "instructionsBefore instructions i = length (filter (\<lambda>x. \<not> isLabel x) (take i instructions))"

text \<open>The value an A-instruction stands for under a symbol table.\<close>

definition resolvedValue :: "symbolTable \<Rightarrow> aInstruction \<Rightarrow> 16 word" where
  "resolvedValue \<sigma> a = (if IsSymbol a then the (\<sigma> (Literal a)) else Value a)"

text \<open>
  The text one instruction contributes to the output under a symbol table: sixteen binary
  digits and a line feed, and nothing for a label declaration.
\<close>

fun lineOf :: "symbolTable \<Rightarrow> instruction \<Rightarrow> string" where
  "lineOf \<sigma> (AIns a) = fmt016b (resolvedValue \<sigma> a) @ [CHR 0x0A]"
| "lineOf \<sigma> (CIns c) = (case codeCInstruction c of Inr s \<Rightarrow> s @ [CHR 0x0A] | Inl e \<Rightarrow> [])"
| "lineOf \<sigma> (LabelIns l) = []"

text \<open>
  The lines a sequence of instructions contributes to the output under a symbol table, one
  for each instruction that is not a label declaration, and the sink after a list of lines
  has been handed to a writer, one \<open>Write\<close> each.
\<close>

definition linesOf :: "symbolTable \<Rightarrow> instruction list \<Rightarrow> string list" where
  "linesOf \<sigma> ins = map (lineOf \<sigma>) (filter (\<lambda>i. \<not> isLabel i) ins)"

definition writeLines :: "'w writer \<Rightarrow> 'w \<Rightarrow> string list \<Rightarrow> 'w" where
  "writeLines wr out ls = foldl (\<lambda>s l. fst (wr s l)) out ls"

text \<open>
  What \<open>code\<close> checks after each write: 17 bytes written and no error, the number of
  bytes first. \<open>writeOk\<close> says that one write passes the check, \<open>writesOk\<close> that each
  write of a list of lines does, and \<open>writeFaultOf\<close> is the fault reported for a write that
  does not.
\<close>

definition writeOk :: "'w writer \<Rightarrow> 'w \<Rightarrow> string \<Rightarrow> bool" where
  "writeOk wr s l \<longleftrightarrow> fst (snd (wr s l)) = 17 \<and> \<not> snd (snd (wr s l))"

fun writesOk :: "'w writer \<Rightarrow> 'w \<Rightarrow> string list \<Rightarrow> bool" where
  "writesOk wr s [] = True"
| "writesOk wr s (l # ls) = (writeOk wr s l \<and> writesOk wr (fst (wr s l)) ls)"

definition writeFaultOf :: "'w writer \<Rightarrow> 'w \<Rightarrow> string \<Rightarrow> writeFault" where
  "writeFaultOf wr s l =
     (if fst (snd (wr s l)) \<noteq> 17 then ShortWrite (fst (snd (wr s l))) else SinkFailed)"

text \<open>
  The symbols of the A-instructions of a sequence that are not among the known ones, each
  once, in the order of their first occurrence.
\<close>

fun newVars :: "string set \<Rightarrow> instruction list \<Rightarrow> string list" where
  "newVars known [] = []"
| "newVars known (AIns a # rest) =
     (if IsSymbol a \<and> Literal a \<notin> known then Literal a # newVars (insert (Literal a) known) rest
      else newVars known rest)"
| "newVars known (_ # rest) = newVars known rest"

text \<open>An ASCII decimal digit, and the number a string of them denotes.\<close>

definition isDecimalDigit :: "char \<Rightarrow> bool" where
  "isDecimalDigit c \<longleftrightarrow> 0x30 \<le> byte c \<and> byte c \<le> 0x39"

definition decimalValue :: "string \<Rightarrow> nat" where
  "decimalValue t = foldl (\<lambda>n c. 10 * n + (byte c - 0x30)) 0 t"

text \<open>The literals of the symbolic A-instructions of a sequence, in order.\<close>

fun symbolsUsed :: "instruction list \<Rightarrow> string list" where
  "symbolsUsed [] = []"
| "symbolsUsed (AIns a # rest) =
     (if IsSymbol a then Literal a # symbolsUsed rest else symbolsUsed rest)"
| "symbolsUsed (_ # rest) = symbolsUsed rest"

text \<open>The elements of a list, each once, in the order of their first occurrence.\<close>

fun firsts :: "'a list \<Rightarrow> 'a list" where
  "firsts [] = []"
| "firsts (x # xs) = x # firsts (filter (\<lambda>y. y \<noteq> x) xs)"

text \<open>
  The variables of a sequence: the symbols of its A-instructions that are neither
  predefined symbols nor labels, in the order of their first occurrence.
\<close>

definition variables :: "instruction list \<Rightarrow> string list" where
  "variables instructions =
     firsts (filter (\<lambda>s. s \<notin> dom predefinedSymbols \<and> s \<notin> set (labelsDeclared instructions))
               (symbolsUsed instructions))"

text \<open>
  The symbol table as it is when \<open>code\<close> returns (in Go it is a local variable of
  \<open>code\<close>), empty when the label pass fails.
\<close>

definition finalSymbolTable ::
  "(string \<times> 16 word) list \<Rightarrow> 'w writer \<Rightarrow> instruction list \<Rightarrow> 'w \<Rightarrow> symbolTable" where
  "finalSymbolTable order wr instructions out =
     (case codeLabels instructions 0 Map.empty of
        Inl err \<Rightarrow> Map.empty
      | Inr symbolTable \<Rightarrow>
          fst (snd (codeEmit wr instructions (rangeStore order symbolTable) 16 out)))"

subsection \<open>Programs for the examples\<close>

text \<open>
  A table for the runes beyond U+00FF that knows the Arabic-Indic digits U+0660 to U+0669
  (decimal digits, category Nd, in every version of Unicode) and nothing else.
\<close>

definition arabicIndicDigits :: unicodeTables where
  "arabicIndicDigits = \<lparr>Letter = \<lambda>r. False, Digit = \<lambda>r. 0x660 \<le> r \<and> r \<le> 0x669\<rparr>"

text \<open>
  The instructions of \<open>n\<close> lines \<open>0\<close> followed by the lines \<open>(END)\<close> and \<open>@END\<close>.
\<close>

definition longProgram :: "nat \<Rightarrow> instruction list" where
  "longProgram n =
     replicate n (CIns \<lparr>Dest = [], Comp = ''0'', Jump = []\<rparr>)
       @ [LabelIns \<lparr>label.Literal = ''END''\<rparr>,
          AIns \<lparr>Literal = ''END'', IsSymbol = True, Value = 0\<rparr>]"

text \<open>
  The instructions of the \<open>n\<close> lines \<open>@v0\<close>, \<open>@v1\<close>, \<open>@v10\<close>, \<open>@v11\<close>, ...: the
  letter v and a binary number, \<open>n\<close> different symbols.
\<close>

fun manyVariables :: "nat \<Rightarrow> instruction list" where
  "manyVariables 0 = []"
| "manyVariables (Suc n) =
     manyVariables n @ [AIns \<lparr>Literal = CHR ''v'' # binaryDigits n, IsSymbol = True, Value = 0\<rparr>]"

text \<open>The source text of \<open>manyVariables n\<close>: the lines \<open>@v0\<close>, \<open>@v1\<close>, \<open>@v10\<close>, ...\<close>

fun manyLines :: "nat \<Rightarrow> string" where
  "manyLines 0 = []"
| "manyLines (Suc n) = manyLines n @ ''@v'' @ binaryDigits n @ ''\<newline>''"

text \<open>
  The instructions of the lines \<open>@i\<close>, \<open>(LOOP)\<close>, \<open>@LOOP\<close>, \<open>@R1\<close>, \<open>@5\<close>, \<open>@sum\<close>,
  \<open>@i\<close>, \<open>D=A\<close>: a variable, a label, a predefined symbol and a number.
\<close>

definition exampleProgram :: "instruction list" where
  "exampleProgram =
     [AIns \<lparr>Literal = ''i'', IsSymbol = True, Value = 0\<rparr>,
      LabelIns \<lparr>label.Literal = ''LOOP''\<rparr>,
      AIns \<lparr>Literal = ''LOOP'', IsSymbol = True, Value = 0\<rparr>,
      AIns \<lparr>Literal = ''R1'', IsSymbol = True, Value = 0\<rparr>,
      AIns \<lparr>Literal = ''5'', IsSymbol = False, Value = 5\<rparr>,
      AIns \<lparr>Literal = ''sum'', IsSymbol = True, Value = 0\<rparr>,
      AIns \<lparr>Literal = ''i'', IsSymbol = True, Value = 0\<rparr>,
      CIns \<lparr>Dest = ''D'', Comp = ''A'', Jump = []\<rparr>]"

section \<open>Formatting\<close>

lemma binaryDigits_chars: "set (binaryDigits u) \<subseteq> {CHR ''0'', CHR ''1''}"
proof (induction u rule: binaryDigits.induct)
  case (1 u)
  show ?case
    by (subst binaryDigits.simps) (use 1 in auto)
qed

lemma binaryValue_snoc:
  "binaryValue (s @ [c]) = 2 * binaryValue s + (if c = CHR ''1'' then 1 else 0)"
  by (simp add: binaryValue_def)

lemma binaryValue_binaryDigits: "binaryValue (binaryDigits u) = u"
proof (induction u rule: binaryDigits.induct)
  case (1 u)
  show ?case
  proof (cases "u < 2")
    case True
    then have "u = 0 \<or> u = 1" by auto
    then show ?thesis
      by (subst binaryDigits.simps) (auto simp: binaryValue_def)
  next
    case False
    with 1 have "binaryValue (binaryDigits (u div 2)) = u div 2" by simp
    with False show ?thesis
      by (subst binaryDigits.simps) (simp add: binaryValue_snoc, presburger)
  qed
qed

lemma length_binaryDigits_le: "u < 2 ^ k \<Longrightarrow> 0 < k \<Longrightarrow> length (binaryDigits u) \<le> k"
proof (induction u arbitrary: k rule: binaryDigits.induct)
  case (1 u)
  show ?case
  proof (cases "u < 2")
    case True
    with 1(3) show ?thesis
      by (subst binaryDigits.simps) simp
  next
    case False
    obtain j where k: "k = Suc j" using 1(3) by (cases k) auto
    from False 1(2) k have "0 < j" by (cases j) auto
    moreover from 1(2) k have "u div 2 < 2 ^ j" by auto
    ultimately have "length (binaryDigits (u div 2)) \<le> j"
      using 1(1) False by simp
    with False k show ?thesis
      by (subst binaryDigits.simps) simp
  qed
qed

lemma length_binaryDigits_gt: "2 ^ k \<le> u \<Longrightarrow> k < length (binaryDigits u)"
proof (induction u arbitrary: k rule: binaryDigits.induct)
  case (1 u)
  show ?case
  proof (cases "u < 2")
    case True
    have "k = 0"
    proof (rule ccontr)
      assume "k \<noteq> 0"
      then obtain j where k: "k = Suc j" by (cases k) auto
      have "(0::nat) < 2 ^ j" by simp
      then have "2 \<le> (2::nat) * 2 ^ j" by linarith
      also have "\<dots> = 2 ^ k" using k by simp
      also have "\<dots> \<le> u" by (rule 1(2))
      finally show False using True by linarith
    qed
    with True show ?thesis
      by (subst binaryDigits.simps) simp
  next
    case False
    show ?thesis
    proof (cases k)
      case 0
      with False show ?thesis by (subst binaryDigits.simps) simp
    next
      case (Suc j)
      with 1(2) have "2 ^ j \<le> u div 2" by auto
      with 1(1) False have "j < length (binaryDigits (u div 2))" by simp
      with False Suc show ?thesis
        by (subst binaryDigits.simps) simp
    qed
  qed
qed

lemma hd_binaryDigits: "hd (binaryDigits u) = (if u = 0 then CHR ''0'' else CHR ''1'')"
proof (induction u rule: binaryDigits.induct)
  case (1 u)
  show ?case
  proof (cases "u < 2")
    case True
    then show ?thesis by (subst binaryDigits.simps) auto
  next
    case False
    then have "binaryDigits (u div 2) \<noteq> []"
      by (subst binaryDigits.simps) auto
    moreover from False have "u div 2 \<noteq> 0" by auto
    ultimately show ?thesis
      using 1 False by (subst binaryDigits.simps) (simp add: hd_append)
  qed
qed

lemma length_fmt016b: "length (fmt016b v) = 16"
proof -
  have "unat v < 2 ^ 16"
    using unsigned_less [of v] by simp
  then have "length (binaryDigits (unat v)) \<le> 16"
    by (rule length_binaryDigits_le) simp
  then show ?thesis
    by (simp add: fmt016b_def Let_def)
qed

lemma fmt016b_chars: "set (fmt016b v) \<subseteq> {CHR ''0'', CHR ''1''}"
  using binaryDigits_chars [of "unat v"] by (auto simp: fmt016b_def Let_def)

lemma binaryValue_zeros: "binaryValue (replicate n (CHR ''0'') @ s) = binaryValue s"
  by (induction n) (simp_all add: binaryValue_def)

lemma binaryValue_fmt016b: "binaryValue (fmt016b v) = unat v"
  by (simp add: fmt016b_def Let_def binaryValue_zeros binaryValue_binaryDigits)

lemma hd_fmt016b: "hd (fmt016b v) = CHR ''0'' \<longleftrightarrow> unat v < 32768"
proof (cases "unat v < 32768")
  case True
  then have "unat v < 2 ^ 15" by simp
  then have "length (binaryDigits (unat v)) \<le> 15"
    by (rule length_binaryDigits_le) simp
  then obtain n where "16 - length (binaryDigits (unat v)) = Suc n"
    by (cases "16 - length (binaryDigits (unat v))") auto
  with True show ?thesis
    by (simp add: fmt016b_def Let_def)
next
  case False
  then have "2 ^ 15 \<le> unat v" by simp
  then have "15 < length (binaryDigits (unat v))"
    by (rule length_binaryDigits_gt)
  moreover from False have "unat v \<noteq> 0" by auto
  ultimately show ?thesis
    using False by (simp add: fmt016b_def Let_def hd_binaryDigits)
qed

lemma foldl_binary:
  "foldl (\<lambda>a c. 2 * a + (if c = CHR ''1'' then 1 else 0)) a cs =
     a * 2 ^ length cs + foldl (\<lambda>a c. 2 * a + (if c = CHR ''1'' then 1 else (0::nat))) 0 cs"
proof (induction cs arbitrary: a)
  case Nil
  show ?case by simp
next
  case (Cons c cs)
  let ?f = "\<lambda>a c. 2 * a + (if c = CHR ''1'' then 1 else (0::nat))"
  define b :: nat where "b = (if c = CHR ''1'' then 1 else 0)"
  have "foldl ?f a (c # cs) = foldl ?f (2 * a + b) cs"
    by (simp add: b_def)
  also have "\<dots> = (2 * a + b) * 2 ^ length cs + foldl ?f 0 cs"
    by (rule Cons.IH)
  also have "\<dots> = a * 2 ^ length (c # cs) + (b * 2 ^ length cs + foldl ?f 0 cs)"
    by (simp add: algebra_simps)
  also have "b * 2 ^ length cs + foldl ?f 0 cs = foldl ?f b cs"
    by (rule Cons.IH [symmetric])
  also have "foldl ?f b cs = foldl ?f 0 (c # cs)"
    by (simp add: b_def)
  finally show ?case .
qed

lemma binaryValue_Cons:
  "binaryValue (c # cs) = (if c = CHR ''1'' then 2 ^ length cs else 0) + binaryValue cs"
  using foldl_binary [of "if c = CHR ''1'' then 1 else 0" cs]
  by (simp add: binaryValue_def)

lemma binaryValue_less: "binaryValue cs < 2 ^ length cs"
proof (induction cs)
  case Nil
  show ?case by (simp add: binaryValue_def)
next
  case (Cons c cs)
  then show ?case by (simp add: binaryValue_Cons)
qed

lemma binaryValue_inj:
  assumes "length s = length t" and "set s \<subseteq> {CHR ''0'', CHR ''1''}"
    and "set t \<subseteq> {CHR ''0'', CHR ''1''}" and "binaryValue s = binaryValue t"
  shows "s = t"
  using assms
proof (induction s t rule: list_induct2)
  case Nil
  show ?case by simp
next
  case (Cons x xs y ys)
  have lx: "binaryValue xs < 2 ^ length xs" and ly: "binaryValue ys < 2 ^ length xs"
    using binaryValue_less [of xs] binaryValue_less [of ys] Cons.hyps by simp_all
  from Cons.prems have "x = CHR ''0'' \<or> x = CHR ''1''" "y = CHR ''0'' \<or> y = CHR ''1''"
    by auto
  with Cons.prems(3) lx ly Cons.hyps have "x = y" "binaryValue xs = binaryValue ys"
    by (auto simp: binaryValue_Cons)
  with Cons show ?case by simp
qed

lemma fmt016b_eq:
  assumes "length s = 16" and "set s \<subseteq> {CHR ''0'', CHR ''1''}" and "binaryValue s = unat v"
  shows "fmt016b v = s"
  using assms by (intro binaryValue_inj) (simp_all add: length_fmt016b fmt016b_chars binaryValue_fmt016b)

section \<open>The label pass\<close>

lemma instructionsBefore_Cons:
  "instructionsBefore (x # xs) (Suc i) = (if isLabel x then 0 else 1) + instructionsBefore xs i"
  by (simp add: instructionsBefore_def)

lemma instructionsBefore_0: "instructionsBefore xs 0 = 0"
  by (simp add: instructionsBefore_def)

lemma codeLabels_keeps:
  "codeLabels ins pc st = Inr st' \<Longrightarrow> st k = Some v \<Longrightarrow> st' k = Some v"
proof (induction ins pc st rule: codeLabels.induct)
  case (2 l rest pc st)
  from 2(2) have ok: "st (label.Literal l) = None" "predefinedSymbols (label.Literal l) = None"
    and run: "codeLabels rest pc (st(label.Literal l \<mapsto> pc)) = Inr st'"
    by (auto split: if_splits)
  from ok(1) 2(3) have "(st(label.Literal l \<mapsto> pc)) k = Some v"
    by auto
  with 2(1) ok run show ?case
    by blast
qed auto

lemma codeLabels_address:
  "codeLabels ins pc st = Inr st' \<Longrightarrow> i < length ins \<Longrightarrow> ins ! i = LabelIns l
     \<Longrightarrow> st' (label.Literal l) = Some (pc + of_nat (instructionsBefore ins i))"
proof (induction ins arbitrary: pc st i)
  case Nil
  then show ?case by simp
next
  case (Cons x rest)
  show ?case
  proof (cases x)
    case (LabelIns v)
    with Cons.prems(1) have
      ok: "st (label.Literal v) = None" "predefinedSymbols (label.Literal v) = None"
      and run: "codeLabels rest pc (st(label.Literal v \<mapsto> pc)) = Inr st'"
      by (auto split: if_splits)
    show ?thesis
    proof (cases i)
      case 0
      with Cons.prems(3) LabelIns have "l = v" by simp
      with 0 show ?thesis
        by (simp add: instructionsBefore_0 codeLabels_keeps [OF run])
    next
      case (Suc j)
      with Cons.IH [OF run, of j] Cons.prems(2,3) LabelIns show ?thesis
        by (simp add: instructionsBefore_Cons)
    qed
  next
    case (AIns a)
    with Cons.prems(1) have run: "codeLabels rest (pc + 1) st = Inr st'"
      by simp
    from Cons.prems(3) AIns obtain j where j: "i = Suc j"
      by (cases i) auto
    with Cons.IH [OF run, of j] Cons.prems(2,3) AIns show ?thesis
      by (simp add: instructionsBefore_Cons algebra_simps)
  next
    case (CIns c)
    with Cons.prems(1) have run: "codeLabels rest (pc + 1) st = Inr st'"
      by simp
    from Cons.prems(3) CIns obtain j where j: "i = Suc j"
      by (cases i) auto
    with Cons.IH [OF run, of j] Cons.prems(2,3) CIns show ?thesis
      by (simp add: instructionsBefore_Cons algebra_simps)
  qed
qed

lemma codeLabels_dom:
  "codeLabels ins pc st = Inr st' \<Longrightarrow> dom st' = dom st \<union> set (labelsDeclared ins)"
  by (induction ins pc st rule: codeLabels.induct) (auto split: if_splits)

lemma codeLabels_succeeds:
  "(\<exists>st'. codeLabels ins pc st = Inr st') \<longleftrightarrow>
     distinct (labelsDeclared ins)
       \<and> set (labelsDeclared ins) \<inter> (dom st \<union> dom predefinedSymbols) = {}"
  by (induction ins pc st rule: codeLabels.induct)
    (auto split: if_splits simp del: fun_upd_apply)

lemma codeLabels_append_Inl:
  "codeLabels xs pc st = Inl e \<Longrightarrow> codeLabels (xs @ ys) pc st = Inl e"
  by (induction xs pc st rule: codeLabels.induct)
    (auto split: if_splits simp del: fun_upd_apply)

lemma codeLabels_append_Inr:
  "codeLabels xs pc st = Inr st1 \<Longrightarrow>
     codeLabels (xs @ ys) pc st =
       codeLabels ys (pc + of_nat (length (filter (\<lambda>x. \<not> isLabel x) xs))) st1"
  by (induction xs pc st rule: codeLabels.induct)
    (auto split: if_splits simp del: fun_upd_apply simp: algebra_simps)

lemma codeLabels_errors:
  "codeLabels ins pc st = Inl e \<Longrightarrow>
     (\<exists>l. e = DuplicateLabelError l) \<or> (\<exists>l. e = ReservedSymbolError l)"
  by (induction ins pc st rule: codeLabels.induct) (auto split: if_splits)

lemma foldl_store:
  "foldl (\<lambda>m (k, v). m(k \<mapsto> v)) st xs = st ++ map_of (rev xs)"
  by (induction xs arbitrary: st) (auto simp: map_add_def fun_eq_iff split: option.splits)

lemma distinct_predefined: "distinct (map fst predefinedEntries)"
  by (simp add: predefinedEntries_def)

lemma rangeStore_any_order:
  assumes "mset order = mset predefinedEntries"
  shows "rangeStore order st = st ++ predefinedSymbols"
proof -
  from assms have "mset (map fst (rev order)) = mset (map fst predefinedEntries)"
    by (metis mset_map mset_rev)
  then have "distinct (map fst (rev order))"
    using distinct_predefined by (metis mset_eq_imp_distinct_iff)
  moreover from assms have "set (rev order) = set predefinedEntries"
    by (metis mset_eq_setD set_rev)
  ultimately have "map_of (rev order) = map_of predefinedEntries"
    using distinct_predefined by (simp add: map_of_inject_set)
  then show ?thesis
    by (simp add: rangeStore_def foldl_store predefinedSymbols_def)
qed

lemma codeLabels_first_error:
  "codeLabels ins pc st = Inl e \<Longrightarrow>
     \<exists>pre l rest st1. ins = pre @ LabelIns l # rest \<and> codeLabels pre pc st = Inr st1
        \<and> (if st1 (label.Literal l) \<noteq> None then e = DuplicateLabelError (label.Literal l)
            else predefinedSymbols (label.Literal l) \<noteq> None
                   \<and> e = ReservedSymbolError (label.Literal l))"
proof (induction ins arbitrary: pc st)
  case Nil
  then show ?case by simp
next
  case (Cons x xs)
  show ?case
  proof (cases x)
    case (LabelIns v)
    show ?thesis
    proof (cases "st (label.Literal v) = None \<and> predefinedSymbols (label.Literal v) = None")
      case True
      with Cons.prems LabelIns have run: "codeLabels xs pc (st(label.Literal v \<mapsto> pc)) = Inl e"
        by simp
      from Cons.IH [OF run] obtain pre l rest st1 where
        "xs = pre @ LabelIns l # rest" "codeLabels pre pc (st(label.Literal v \<mapsto> pc)) = Inr st1"
        "if st1 (label.Literal l) \<noteq> None then e = DuplicateLabelError (label.Literal l)
         else predefinedSymbols (label.Literal l) \<noteq> None
                \<and> e = ReservedSymbolError (label.Literal l)"
        by blast
      with True LabelIns show ?thesis
        by (intro exI [of _ "x # pre"] exI [of _ l] exI [of _ rest] exI [of _ st1]) simp
    next
      case False
      with Cons.prems LabelIns show ?thesis
        by (intro exI [of _ "[]"] exI [of _ v] exI [of _ xs] exI [of _ st])
          (auto split: if_splits)
    qed
  next
    case (AIns a)
    with Cons.prems have run: "codeLabels xs (pc + 1) st = Inl e"
      by simp
    from Cons.IH [OF run] obtain pre l rest st1 where
      "xs = pre @ LabelIns l # rest" "codeLabels pre (pc + 1) st = Inr st1"
      "if st1 (label.Literal l) \<noteq> None then e = DuplicateLabelError (label.Literal l)
       else predefinedSymbols (label.Literal l) \<noteq> None
              \<and> e = ReservedSymbolError (label.Literal l)"
      by blast
    with AIns show ?thesis
      by (intro exI [of _ "x # pre"] exI [of _ l] exI [of _ rest] exI [of _ st1]) simp
  next
    case (CIns c)
    with Cons.prems have run: "codeLabels xs (pc + 1) st = Inl e"
      by simp
    from Cons.IH [OF run] obtain pre l rest st1 where
      "xs = pre @ LabelIns l # rest" "codeLabels pre (pc + 1) st = Inr st1"
      "if st1 (label.Literal l) \<noteq> None then e = DuplicateLabelError (label.Literal l)
       else predefinedSymbols (label.Literal l) \<noteq> None
              \<and> e = ReservedSymbolError (label.Literal l)"
      by blast
    with CIns show ?thesis
      by (intro exI [of _ "x # pre"] exI [of _ l] exI [of _ rest] exI [of _ st1]) simp
  qed
qed

lemma codeLabels_fails:
  assumes "\<not> (distinct (labelsDeclared ins)
              \<and> set (labelsDeclared ins) \<inter> dom predefinedSymbols = {})"
  shows "\<exists>pre l rest. ins = pre @ LabelIns l # rest
           \<and> distinct (labelsDeclared pre)
           \<and> set (labelsDeclared pre) \<inter> dom predefinedSymbols = {}
           \<and> (label.Literal l \<in> set (labelsDeclared pre)
                 \<or> label.Literal l \<in> dom predefinedSymbols)
           \<and> codeLabels ins 0 Map.empty =
                Inl (if label.Literal l \<in> set (labelsDeclared pre)
                     then DuplicateLabelError (label.Literal l)
                     else ReservedSymbolError (label.Literal l))"
proof -
  from assms codeLabels_succeeds [of ins 0 Map.empty]
  obtain e where e: "codeLabels ins 0 Map.empty = Inl e"
    by (cases "codeLabels ins 0 Map.empty") auto
  from codeLabels_first_error [OF e] obtain pre l rest st1 where
    ins: "ins = pre @ LabelIns l # rest" and pre: "codeLabels pre 0 Map.empty = Inr st1"
    and err: "if st1 (label.Literal l) \<noteq> None then e = DuplicateLabelError (label.Literal l)
         else predefinedSymbols (label.Literal l) \<noteq> None
                \<and> e = ReservedSymbolError (label.Literal l)"
    by blast
  from pre codeLabels_succeeds [of pre 0 Map.empty]
  have ok: "distinct (labelsDeclared pre)"
    "set (labelsDeclared pre) \<inter> dom predefinedSymbols = {}"
    by auto
  from codeLabels_dom [OF pre] have dom: "dom st1 = set (labelsDeclared pre)"
    by simp
  then have mem: "st1 (label.Literal l) \<noteq> None \<longleftrightarrow> label.Literal l \<in> set (labelsDeclared pre)"
    by (auto simp: domIff)
  from err mem e ins ok show ?thesis
    by (intro exI [of _ pre] exI [of _ l] exI [of _ rest]) (auto split: if_splits)
qed

lemma set_labelsDeclared:
  "set (labelsDeclared ins) = {label.Literal l | l. LabelIns l \<in> set ins}"
  by (induction ins rule: labelsDeclared.induct) auto

lemma label_pass_table:
  assumes "codeLabels ins 0 Map.empty = Inr st"
  shows "st k = Some v \<longleftrightarrow>
     (\<exists>i l. i < length ins \<and> ins ! i = LabelIns l \<and> label.Literal l = k
         \<and> v = of_nat (instructionsBefore ins i))"
proof
  assume "st k = Some v"
  then have "k \<in> set (labelsDeclared ins)"
    using codeLabels_dom [OF assms] by auto
  then obtain l where "LabelIns l \<in> set ins" "label.Literal l = k"
    by (auto simp: set_labelsDeclared)
  then obtain i where il: "i < length ins" "ins ! i = LabelIns l" "label.Literal l = k"
    by (auto simp: in_set_conv_nth)
  from codeLabels_address [OF assms il(1,2)] il \<open>st k = Some v\<close>
  show "\<exists>i l. i < length ins \<and> ins ! i = LabelIns l \<and> label.Literal l = k
         \<and> v = of_nat (instructionsBefore ins i)"
    by auto
next
  assume "\<exists>i l. i < length ins \<and> ins ! i = LabelIns l \<and> label.Literal l = k
         \<and> v = of_nat (instructionsBefore ins i)"
  then show "st k = Some v"
    using codeLabels_address [OF assms] by auto
qed

section \<open>The encoding pass on a buffer\<close>

lemma map_of_values:
  "map_of xs k = Some v \<Longrightarrow> v \<in> snd ` set xs"
  by (auto dest: map_of_SomeD intro: rev_image_eqI)

lemma compToA_length: "compToA k = Some v \<Longrightarrow> length v = 1"
  unfolding compToA_def by (drule map_of_values) auto

lemma compToC_length: "compToC k = Some v \<Longrightarrow> length v = 6"
  unfolding compToC_def by (drule map_of_values) auto

lemma destToD_length: "destToD k = Some v \<Longrightarrow> length v = 3"
  unfolding destToD_def by (drule map_of_values) auto

lemma jumpToJ_length: "jumpToJ k = Some v \<Longrightarrow> length v = 3"
  unfolding jumpToJ_def by (drule map_of_values) auto

lemma codeCInstruction_length: "codeCInstruction c = Inr s \<Longrightarrow> length s = 16"
  unfolding codeCInstruction_def
  by (auto split: option.splits if_splits
      dest!: compToA_length compToC_length destToD_length jumpToJ_length)

lemma codeCInstruction_errors:
  "codeCInstruction c = Inl e \<Longrightarrow> \<exists>f m. e = UnknownMnemonicError f m"
  unfolding codeCInstruction_def
  by (auto split: option.splits if_splits)

lemma resolve_table:
  "fst (snd (resolve a st nva)) =
     (if IsSymbol a \<and> st (Literal a) = None then st(Literal a \<mapsto> nva) else st)"
  by (auto simp: resolve_def split: option.splits)

lemma resolve_next:
  "snd (snd (resolve a st nva)) = (if IsSymbol a \<and> st (Literal a) = None then nva + 1 else nva)"
  by (auto simp: resolve_def split: option.splits)

lemma resolve_value:
  "codeAInstruction (fst (resolve a st nva)) =
     resolvedValue (fst (snd (resolve a st nva))) a"
  by (auto simp: resolve_def codeAInstruction_def resolvedValue_def split: option.splits)

lemma codeEmit_buffer_A:
  "codeEmit bufferWrite (AIns a # rest) st nva out =
     codeEmit bufferWrite rest (fst (snd (resolve a st nva))) (snd (snd (resolve a st nva)))
       (out @ fmt016b (resolvedValue (fst (snd (resolve a st nva))) a) @ [CHR 0x0A])"
  using resolve_value [of a st nva]
  by (cases "resolve a st nva") (simp add: Fprintf_def bufferWrite_def length_fmt016b)

lemma codeEmit_buffer_C:
  "codeEmit bufferWrite (CIns c # rest) st nva out =
     (case codeCInstruction c of
        Inl e \<Rightarrow> (Some e, st, nva, out)
      | Inr s \<Rightarrow> codeEmit bufferWrite rest st nva (out @ s @ [CHR 0x0A]))"
  by (auto simp: Fprintf_def bufferWrite_def split: sum.splits dest: codeCInstruction_length)

lemma resolve_has_symbol:
  "IsSymbol a \<Longrightarrow> \<exists>v. fst (snd (resolve a st nva)) (Literal a) = Some v"
  by (auto simp: resolve_table)

lemma resolve_keeps:
  "st k = Some v \<Longrightarrow> fst (snd (resolve a st nva)) k = Some v"
  by (auto simp: resolve_table)

lemma codeEmit_keeps:
  "codeEmit bufferWrite ins st nva out = (e, \<sigma>, nva', out') \<Longrightarrow> st k = Some v \<Longrightarrow> \<sigma> k = Some v"
proof (induction ins arbitrary: st nva out)
  case Nil
  then show ?case by simp
next
  case (Cons i ins)
  show ?case
  proof (cases i)
    case (AIns a)
    with Cons.prems(1) have
      "codeEmit bufferWrite ins (fst (snd (resolve a st nva))) (snd (snd (resolve a st nva)))
         (out @ fmt016b (resolvedValue (fst (snd (resolve a st nva))) a) @ [CHR 0x0A])
       = (e, \<sigma>, nva', out')"
      by (simp only: codeEmit_buffer_A)
    then show ?thesis
      using Cons.prems(2) by (rule Cons.IH [OF _ resolve_keeps])
  next
    case (CIns c)
    with Cons show ?thesis
      by (auto simp: codeEmit_buffer_C simp del: codeEmit.simps(3) split: sum.splits)
  next
    case (LabelIns l)
    with Cons show ?thesis by auto
  qed
qed

lemma resolvedValue_final:
  assumes "codeEmit bufferWrite ins (fst (snd (resolve a st nva))) nva1 out1 = (e, \<sigma>, nva', out')"
  shows "resolvedValue (fst (snd (resolve a st nva))) a = resolvedValue \<sigma> a"
proof (cases "IsSymbol a")
  case True
  then obtain v where v: "fst (snd (resolve a st nva)) (Literal a) = Some v"
    using resolve_has_symbol by blast
  with assms have "\<sigma> (Literal a) = Some v"
    by (rule codeEmit_keeps)
  with v True show ?thesis
    by (simp add: resolvedValue_def)
next
  case False
  then show ?thesis by (simp add: resolvedValue_def)
qed

lemma codeEmit_output:
  "codeEmit bufferWrite ins st nva out = (None, \<sigma>, nva', out')
     \<Longrightarrow> out' = out @ concat (map (lineOf \<sigma>) ins)"
proof (induction ins arbitrary: st nva out)
  case Nil
  then show ?case by simp
next
  case (Cons i ins)
  show ?case
  proof (cases i)
    case (AIns a)
    with Cons.prems have run:
      "codeEmit bufferWrite ins (fst (snd (resolve a st nva))) (snd (snd (resolve a st nva)))
         (out @ fmt016b (resolvedValue (fst (snd (resolve a st nva))) a) @ [CHR 0x0A])
       = (None, \<sigma>, nva', out')"
      by (simp only: codeEmit_buffer_A)
    from Cons.IH [OF run] resolvedValue_final [OF run] AIns show ?thesis
      by simp
  next
    case (CIns c)
    with Cons.prems obtain s where s: "codeCInstruction c = Inr s"
      and run: "codeEmit bufferWrite ins st nva (out @ s @ [CHR 0x0A]) = (None, \<sigma>, nva', out')"
      by (cases "codeCInstruction c") (auto simp: codeEmit_buffer_C simp del: codeEmit.simps(3))
    from Cons.IH [OF run] s CIns show ?thesis
      by simp
  next
    case (LabelIns l)
    with Cons show ?thesis by auto
  qed
qed

lemma codeEmit_failure:
  "codeEmit bufferWrite ins st nva out = (Some e, \<sigma>, nva', out') \<Longrightarrow>
     \<exists>pre c rest. ins = pre @ CIns c # rest \<and> codeCInstruction c = Inl e
        \<and> (\<forall>c'. CIns c' \<in> set pre \<longrightarrow> (\<exists>s. codeCInstruction c' = Inr s))
        \<and> out' = out @ concat (map (lineOf \<sigma>) pre)"
proof (induction ins arbitrary: st nva out)
  case Nil
  then show ?case by simp
next
  case (Cons i ins)
  show ?case
  proof (cases i)
    case (AIns a)
    with Cons.prems have run:
      "codeEmit bufferWrite ins (fst (snd (resolve a st nva))) (snd (snd (resolve a st nva)))
         (out @ fmt016b (resolvedValue (fst (snd (resolve a st nva))) a) @ [CHR 0x0A])
       = (Some e, \<sigma>, nva', out')"
      by (simp only: codeEmit_buffer_A)
    from Cons.IH [OF run] obtain pre c rest where
      "ins = pre @ CIns c # rest" "codeCInstruction c = Inl e"
      "\<forall>c'. CIns c' \<in> set pre \<longrightarrow> (\<exists>s. codeCInstruction c' = Inr s)"
      "out' = (out @ fmt016b (resolvedValue (fst (snd (resolve a st nva))) a) @ [CHR 0x0A])
                @ concat (map (lineOf \<sigma>) pre)"
      by blast
    with resolvedValue_final [OF run] AIns show ?thesis
      by (intro exI [of _ "i # pre"] exI [of _ c] exI [of _ rest]) simp
  next
    case (CIns c)
    show ?thesis
    proof (cases "codeCInstruction c")
      case (Inl err)
      with Cons.prems CIns have "err = e" "out' = out"
        by (simp_all add: codeEmit_buffer_C del: codeEmit.simps(3))
      with Inl CIns show ?thesis
        by (intro exI [of _ "[]"] exI [of _ c] exI [of _ ins]) simp
    next
      case (Inr s)
      with Cons.prems CIns have run:
        "codeEmit bufferWrite ins st nva (out @ s @ [CHR 0x0A]) = (Some e, \<sigma>, nva', out')"
        by (simp add: codeEmit_buffer_C del: codeEmit.simps(3))
      from Cons.IH [OF run] obtain pre c0 rest where
        "ins = pre @ CIns c0 # rest" "codeCInstruction c0 = Inl e"
        "\<forall>c'. CIns c' \<in> set pre \<longrightarrow> (\<exists>s. codeCInstruction c' = Inr s)"
        "out' = (out @ s @ [CHR 0x0A]) @ concat (map (lineOf \<sigma>) pre)"
        by blast
      with Inr CIns show ?thesis
        by (intro exI [of _ "i # pre"] exI [of _ c0] exI [of _ rest]) auto
    qed
  next
    case (LabelIns l)
    with Cons.prems have run: "codeEmit bufferWrite ins st nva out = (Some e, \<sigma>, nva', out')"
      by simp
    from Cons.IH [OF run] obtain pre c0 rest where
      "ins = pre @ CIns c0 # rest" "codeCInstruction c0 = Inl e"
      "\<forall>c'. CIns c' \<in> set pre \<longrightarrow> (\<exists>s. codeCInstruction c' = Inr s)"
      "out' = out @ concat (map (lineOf \<sigma>) pre)"
      by blast
    with LabelIns show ?thesis
      by (intro exI [of _ "i # pre"] exI [of _ c0] exI [of _ rest]) auto
  qed
qed

lemma codeEmit_succeeds:
  "fst (codeEmit bufferWrite ins st nva out) = None \<longleftrightarrow>
     (\<forall>c. CIns c \<in> set ins \<longrightarrow> (\<exists>s. codeCInstruction c = Inr s))"
proof (induction ins arbitrary: st nva out)
  case Nil
  then show ?case by simp
next
  case (Cons i ins)
  show ?case
  proof (cases i)
    case (AIns a)
    with Cons show ?thesis
      by (simp only: codeEmit_buffer_A) auto
  next
    case (CIns c)
    with Cons show ?thesis
      by (cases "codeCInstruction c") (auto simp: codeEmit_buffer_C simp del: codeEmit.simps(3))
  next
    case (LabelIns l)
    with Cons show ?thesis by auto
  qed
qed

lemma codeEmit_variables:
  "codeEmit bufferWrite ins st nva out = (None, \<sigma>, nva', out') \<Longrightarrow>
     dom \<sigma> = dom st \<union> set (newVars (dom st) ins)
       \<and> (\<forall>j < length (newVars (dom st) ins).
             \<sigma> (newVars (dom st) ins ! j) = Some (nva + of_nat j))
       \<and> nva' = nva + of_nat (length (newVars (dom st) ins))"
proof (induction ins arbitrary: st nva out)
  case Nil
  then show ?case by simp
next
  case (Cons i ins)
  show ?case
  proof (cases i)
    case (AIns a)
    let ?st1 = "fst (snd (resolve a st nva))" and ?nva1 = "snd (snd (resolve a st nva))"
    from Cons.prems AIns have run:
      "codeEmit bufferWrite ins ?st1 ?nva1
         (out @ fmt016b (resolvedValue ?st1 a) @ [CHR 0x0A]) = (None, \<sigma>, nva', out')"
      by (simp only: codeEmit_buffer_A)
    note IH = Cons.IH [OF run]
    show ?thesis
    proof (cases "IsSymbol a \<and> st (Literal a) = None")
      case True
      then have st1: "?st1 = st(Literal a \<mapsto> nva)" and nva1: "?nva1 = nva + 1"
        by (simp_all add: resolve_table resolve_next)
      from True have new: "newVars (dom st) (i # ins) =
          Literal a # newVars (insert (Literal a) (dom st)) ins"
        using AIns by (auto simp: domIff)
      have d1: "dom ?st1 = insert (Literal a) (dom st)"
        by (simp add: st1)
      have here: "\<sigma> (Literal a) = Some nva"
        by (rule codeEmit_keeps [OF run]) (simp add: st1)
      from IH have
        a: "dom \<sigma> = insert (Literal a) (dom st) \<union> set (newVars (insert (Literal a) (dom st)) ins)"
        and b: "\<forall>j < length (newVars (insert (Literal a) (dom st)) ins).
             \<sigma> (newVars (insert (Literal a) (dom st)) ins ! j) = Some (nva + 1 + of_nat j)"
        and c: "nva' = nva + 1 + of_nat (length (newVars (insert (Literal a) (dom st)) ins))"
        unfolding d1 nva1 by blast+
      have "\<sigma> (newVars (dom st) (i # ins) ! j) = Some (nva + of_nat j)"
        if "j < length (newVars (dom st) (i # ins))" for j
      proof (cases j)
        case 0
        with here new show ?thesis by simp
      next
        case (Suc m)
        with that new b show ?thesis by (simp add: algebra_simps)
      qed
      with a c new show ?thesis
        by (simp add: algebra_simps)
    next
      case False
      then have "?st1 = st" "?nva1 = nva"
        by (auto simp: resolve_table resolve_next)
      moreover from False AIns have "newVars (dom st) (i # ins) = newVars (dom st) ins"
        by (auto simp: domIff)
      ultimately show ?thesis
        using IH by simp
    qed
  next
    case (CIns c)
    with Cons show ?thesis
      by (cases "codeCInstruction c") (auto simp: codeEmit_buffer_C simp del: codeEmit.simps(3))
  next
    case (LabelIns l)
    with Cons show ?thesis by auto
  qed
qed

lemma newVars_distinct: "distinct (newVars known ins) \<and> set (newVars known ins) \<inter> known = {}"
proof (induction known ins rule: newVars.induct)
  case (2 known a rest)
  then show ?case by auto
qed auto

lemma codeEmit_errors:
  "codeEmit wr ins st nva out = (Some e, \<sigma>, nva', out') \<Longrightarrow>
     (\<exists>f m. e = UnknownMnemonicError f m) \<or> (\<exists>w. e = WriteError w)"
proof (induction wr ins st nva out rule: codeEmit.induct)
  case (1 wr st nva out)
  then show ?case by simp
next
  case (2 wr ins rest st nva out)
  then show ?case
    by (auto split: prod.splits if_splits)
next
  case (3 wr ins rest st nva out)
  then show ?case
    by (auto split: prod.splits if_splits sum.splits dest: codeCInstruction_errors)
next
  case (4 wr ins rest st nva out)
  then show ?case by simp
qed

lemma codeEmit_buffer_errors:
  "codeEmit bufferWrite ins st nva out = (Some e, \<sigma>, nva', out') \<Longrightarrow>
     \<exists>f m. e = UnknownMnemonicError f m"
  by (auto dest!: codeEmit_failure codeCInstruction_errors)

lemma code_errors:
  "code order wr ins out = (Some e, out') \<Longrightarrow>
     (\<exists>l. e = DuplicateLabelError l) \<or> (\<exists>l. e = ReservedSymbolError l)
       \<or> (\<exists>f m. e = UnknownMnemonicError f m) \<or> (\<exists>w. e = WriteError w)"
  by (auto simp: code_def split: sum.splits prod.splits
      dest: codeLabels_errors codeEmit_errors)

lemma code_early_errors:
  assumes "code order wr ins out = (Some e, out')"
    and "(\<exists>l. e = DuplicateLabelError l) \<or> (\<exists>l. e = ReservedSymbolError l)"
  shows "out' = out"
proof (cases "codeLabels ins 0 Map.empty")
  case (Inl err)
  with assms(1) show ?thesis by (simp add: code_def)
next
  case (Inr st)
  with assms(1) obtain \<sigma> nva' where
    "codeEmit wr ins (rangeStore order st) 16 out = (Some e, \<sigma>, nva', out')"
    by (auto simp: code_def split: prod.splits)
  from codeEmit_errors [OF this] assms(2) show ?thesis by auto
qed

lemma lineOf_whole:
  "\<forall>c. i = CIns c \<longrightarrow> (\<exists>s. codeCInstruction c = Inr s) \<Longrightarrow>
     length (lineOf \<sigma> i) = (if isLabel i then 0 else 17)"
  by (cases i) (auto simp: length_fmt016b dest: codeCInstruction_length)

lemma newVars_firsts:
  "newVars known ins = firsts (filter (\<lambda>s. s \<notin> known) (symbolsUsed ins))"
proof (induction known ins rule: newVars.induct)
  case (2 known a rest)
  have "filter (\<lambda>y. y \<noteq> Literal a) (filter (\<lambda>s. s \<notin> known) (symbolsUsed rest))
          = filter (\<lambda>s. s \<notin> insert (Literal a) known) (symbolsUsed rest)"
    by (auto intro: filter_cong)
  with 2 show ?case by auto
qed auto

lemma length_newVars: "length (newVars known ins) \<le> length ins"
  by (induction known ins rule: newVars.induct) (auto intro: le_SucI)

lemma set_newVars: "set (newVars known ins) = set (symbolsUsed ins) - known"
  by (induction known ins rule: newVars.induct) auto

lemma symbolsUsed_mem: "AIns a \<in> set ins \<Longrightarrow> IsSymbol a \<Longrightarrow> Literal a \<in> set (symbolsUsed ins)"
  by (induction ins rule: symbolsUsed.induct) auto

lemma successful_run:
  assumes "mset order = mset predefinedEntries"
    and "code order bufferWrite ins out = (None, out')"
  obtains st nva' where "codeLabels ins 0 Map.empty = Inr st"
    and "codeEmit bufferWrite ins (st ++ predefinedSymbols) 16 out =
           (None, finalSymbolTable order bufferWrite ins out, nva', out')"
proof (cases "codeLabels ins 0 Map.empty")
  case (Inl e)
  with assms(2) show ?thesis by (simp add: code_def)
next
  case (Inr st)
  obtain e \<sigma> nva' o' where run:
    "codeEmit bufferWrite ins (st ++ predefinedSymbols) 16 out = (e, \<sigma>, nva', o')"
    by (metis prod_cases4)
  with Inr assms have "e = None" "o' = out'"
    by (simp_all add: code_def rangeStore_any_order)
  moreover from Inr run assms(1) have "finalSymbolTable order bufferWrite ins out = \<sigma>"
    by (simp add: finalSymbolTable_def rangeStore_any_order)
  ultimately show ?thesis
    using that [OF Inr] run by simp
qed

lemma variables_newVars:
  assumes "codeLabels ins 0 Map.empty = Inr st"
  shows "newVars (dom (st ++ predefinedSymbols)) ins = variables ins"
proof -
  from codeLabels_dom [OF assms] have "dom st = set (labelsDeclared ins)"
    by simp
  then have "(\<lambda>s. s \<notin> dom (st ++ predefinedSymbols))
      = (\<lambda>s. s \<notin> dom predefinedSymbols \<and> s \<notin> set (labelsDeclared ins))"
    by auto
  then show ?thesis
    by (simp add: newVars_firsts variables_def)
qed

subsection \<open>Where a failing run stops\<close>

lemma codeEmit_A:
  "codeEmit wr (AIns a # rest) st nva out =
     (let st1 = fst (snd (resolve a st nva));
          w = wr out (fmt016b (resolvedValue st1 a) @ [CHR 0x0A])
      in if fst (snd w) \<noteq> 17 then
           (Some (WriteError (ShortWrite (fst (snd w)))), st1, snd (snd (resolve a st nva)), fst w)
         else if snd (snd w) then
           (Some (WriteError SinkFailed), st1, snd (snd (resolve a st nva)), fst w)
         else codeEmit wr rest st1 (snd (snd (resolve a st nva))) (fst w))"
  using resolve_value [of a st nva]
  by (cases "resolve a st nva") (simp add: Fprintf_def Let_def split: prod.splits)

lemma codeEmit_C:
  "codeEmit wr (CIns c # rest) st nva out =
     (case codeCInstruction c of
        Inl e \<Rightarrow> (Some e, st, nva, out)
      | Inr s \<Rightarrow>
          (let w = wr out (s @ [CHR 0x0A])
           in if fst (snd w) \<noteq> 17 then (Some (WriteError (ShortWrite (fst (snd w)))), st, nva, fst w)
              else if snd (snd w) then (Some (WriteError SinkFailed), st, nva, fst w)
              else codeEmit wr rest st nva (fst w)))"
  by (simp add: Fprintf_def Let_def split: sum.splits prod.splits)

lemma codeEmit_keeps_any:
  "codeEmit wr ins st nva out = (e, \<sigma>, nva', out') \<Longrightarrow> st k = Some v \<Longrightarrow> \<sigma> k = Some v"
proof (induction ins arbitrary: st nva out)
  case Nil
  then show ?case by simp
next
  case (Cons i ins)
  show ?case
  proof (cases i)
    case (AIns a)
    from Cons.prems(2) have k: "fst (snd (resolve a st nva)) k = Some v"
      by (rule resolve_keeps)
    from Cons.prems(1) AIns k
      Cons.IH [of "fst (snd (resolve a st nva))" "snd (snd (resolve a st nva))"
        "fst (wr out (fmt016b (resolvedValue (fst (snd (resolve a st nva))) a) @ [CHR 0x0A]))"]
    show ?thesis
      by (auto simp only: codeEmit_A Let_def prod.inject split: if_splits)
  next
    case (CIns c)
    show ?thesis
    proof (cases "codeCInstruction c")
      case (Inl err)
      with Cons.prems CIns show ?thesis
        by (simp add: codeEmit_C del: codeEmit.simps)
    next
      case (Inr s)
      from Cons.prems CIns Inr Cons.IH [of st nva "fst (wr out (s @ [CHR 0x0A]))"] show ?thesis
        by (auto simp add: codeEmit_C Let_def simp del: codeEmit.simps split: if_splits)
    qed
  next
    case (LabelIns l)
    with Cons show ?thesis by auto
  qed
qed

lemma resolvedValue_final_any:
  assumes "codeEmit wr ins (fst (snd (resolve a st nva))) nva1 out1 = (e, \<sigma>, nva', out')"
  shows "resolvedValue (fst (snd (resolve a st nva))) a = resolvedValue \<sigma> a"
proof (cases "IsSymbol a")
  case True
  then obtain v where v: "fst (snd (resolve a st nva)) (Literal a) = Some v"
    using resolve_has_symbol by blast
  with assms have "\<sigma> (Literal a) = Some v"
    by (rule codeEmit_keeps_any)
  with v True show ?thesis
    by (simp add: resolvedValue_def)
next
  case False
  then show ?thesis by (simp add: resolvedValue_def)
qed

lemma linesOf_simps:
  "linesOf \<sigma> [] = []"
  "linesOf \<sigma> (AIns a # ins) = lineOf \<sigma> (AIns a) # linesOf \<sigma> ins"
  "linesOf \<sigma> (CIns c # ins) = lineOf \<sigma> (CIns c) # linesOf \<sigma> ins"
  "linesOf \<sigma> (LabelIns l # ins) = linesOf \<sigma> ins"
  by (simp_all add: linesOf_def)

lemma writeLines_simps:
  "writeLines wr out [] = out"
  "writeLines wr out (l # ls) = writeLines wr (fst (wr out l)) ls"
  by (simp_all add: writeLines_def)

lemma linesOf_append: "linesOf \<sigma> (xs @ ys) = linesOf \<sigma> xs @ linesOf \<sigma> ys"
  by (simp add: linesOf_def)

lemma writeLines_append:
  "writeLines wr s (as @ bs) = writeLines wr (writeLines wr s as) bs"
  by (simp add: writeLines_def)

lemma writesOk_append:
  "writesOk wr s (as @ bs) \<longleftrightarrow> writesOk wr s as \<and> writesOk wr (writeLines wr s as) bs"
  by (induction as arbitrary: s) (auto simp: writeLines_simps)

lemma codeEmit_stops:
  "codeEmit wr ins st nva out = (Some e, \<sigma>, nva', out') \<Longrightarrow>
     \<exists>pre i rest. ins = pre @ i # rest
        \<and> (\<forall>c'. CIns c' \<in> set pre \<longrightarrow> (\<exists>s. codeCInstruction c' = Inr s))
        \<and> writesOk wr out (linesOf \<sigma> pre)
        \<and> ((\<exists>c. i = CIns c \<and> codeCInstruction c = Inl e
               \<and> out' = writeLines wr out (linesOf \<sigma> pre))
           \<or> (\<not> isLabel i \<and> (\<forall>c. i = CIns c \<longrightarrow> (\<exists>s. codeCInstruction c = Inr s))
               \<and> \<not> writeOk wr (writeLines wr out (linesOf \<sigma> pre)) (lineOf \<sigma> i)
               \<and> e = WriteError
                     (writeFaultOf wr (writeLines wr out (linesOf \<sigma> pre)) (lineOf \<sigma> i))
               \<and> out' = writeLines wr out (linesOf \<sigma> (pre @ [i]))))"
proof (induction ins arbitrary: st nva out)
  case Nil
  then show ?case by simp
next
  case (Cons x ins)
  let ?Q = "\<lambda>pre i out. (\<exists>c. i = CIns c \<and> codeCInstruction c = Inl e
               \<and> out' = writeLines wr out (linesOf \<sigma> pre))
           \<or> (\<not> isLabel i \<and> (\<forall>c. i = CIns c \<longrightarrow> (\<exists>s. codeCInstruction c = Inr s))
               \<and> \<not> writeOk wr (writeLines wr out (linesOf \<sigma> pre)) (lineOf \<sigma> i)
               \<and> e = WriteError
                     (writeFaultOf wr (writeLines wr out (linesOf \<sigma> pre)) (lineOf \<sigma> i))
               \<and> out' = writeLines wr out (linesOf \<sigma> (pre @ [i])))"
  let ?P = "\<lambda>xs out. \<exists>pre i rest. xs = pre @ i # rest
        \<and> (\<forall>c'. CIns c' \<in> set pre \<longrightarrow> (\<exists>s. codeCInstruction c' = Inr s))
        \<and> writesOk wr out (linesOf \<sigma> pre) \<and> ?Q pre i out"
  have step: "?P (x # ins) out"
    if tail: "?P ins (writeLines wr out (linesOf \<sigma> [x]))"
      and ok: "\<forall>c. x = CIns c \<longrightarrow> (\<exists>s. codeCInstruction c = Inr s)"
      and wok: "writesOk wr out (linesOf \<sigma> [x])"
  proof -
    from tail obtain pre i rest where *: "ins = pre @ i # rest"
      "\<forall>c'. CIns c' \<in> set pre \<longrightarrow> (\<exists>s. codeCInstruction c' = Inr s)"
      "writesOk wr (writeLines wr out (linesOf \<sigma> [x])) (linesOf \<sigma> pre)"
      "?Q pre i (writeLines wr out (linesOf \<sigma> [x]))"
      by blast
    have app: "writeLines wr (writeLines wr out (linesOf \<sigma> [x])) (linesOf \<sigma> ys)
        = writeLines wr out (linesOf \<sigma> (x # ys))" for ys
      using writeLines_append [of wr out "linesOf \<sigma> [x]" "linesOf \<sigma> ys"]
        linesOf_append [of \<sigma> "[x]" ys] by simp
    from *(4) have "?Q (x # pre) i out"
      unfolding app by simp
    moreover from *(1) have "x # ins = (x # pre) @ i # rest" by simp
    moreover from *(2) ok have "\<forall>c'. CIns c' \<in> set (x # pre) \<longrightarrow> (\<exists>s. codeCInstruction c' = Inr s)"
      by auto
    moreover from wok *(3) have "writesOk wr out (linesOf \<sigma> (x # pre))"
      using writesOk_append [of wr out "linesOf \<sigma> [x]" "linesOf \<sigma> pre"]
        linesOf_append [of \<sigma> "[x]" pre] by simp
    ultimately show ?thesis by blast
  qed
  have stop: "?P (x # ins) out"
    if "\<not> isLabel x" "\<forall>c. x = CIns c \<longrightarrow> (\<exists>s. codeCInstruction c = Inr s)"
      "\<not> writeOk wr out (lineOf \<sigma> x)"
      "e = WriteError (writeFaultOf wr out (lineOf \<sigma> x))"
      "out' = fst (wr out (lineOf \<sigma> x))"
  proof -
    have "x # ins = [] @ x # ins" by simp
    moreover have "\<forall>c'. CIns c' \<in> set [] \<longrightarrow> (\<exists>s. codeCInstruction c' = Inr s)" by simp
    moreover have "writesOk wr out (linesOf \<sigma> [])" by (simp add: linesOf_simps)
    moreover from that have "?Q [] x out"
      by (cases x) (simp_all add: linesOf_simps writeLines_simps)
    ultimately show ?thesis by blast
  qed
  show ?case
  proof (cases x)
    case (AIns a)
    let ?st1 = "fst (snd (resolve a st nva))"
    let ?l = "fmt016b (resolvedValue ?st1 a) @ [CHR 0x0A]"
    let ?w = "wr out ?l"
    show ?thesis
    proof (cases "fst (snd ?w) \<noteq> 17 \<or> snd (snd ?w)")
      case True
      with Cons.prems AIns have e: "e = WriteError (writeFaultOf wr out ?l)"
        and \<sigma>: "\<sigma> = ?st1" and o: "out' = fst ?w"
        by (auto simp add: codeEmit_A Let_def writeFaultOf_def simp del: codeEmit.simps
            split: if_splits)
      from \<sigma> AIns have l: "lineOf \<sigma> x = ?l" by simp
      from True have "\<not> writeOk wr out ?l" by (auto simp: writeOk_def)
      with e o AIns show ?thesis unfolding l [symmetric] by (intro stop) simp_all
    next
      case False
      with Cons.prems AIns have run:
        "codeEmit wr ins ?st1 (snd (snd (resolve a st nva))) (fst ?w) = (Some e, \<sigma>, nva', out')"
        by (simp add: codeEmit_A Let_def del: codeEmit.simps)
      from resolvedValue_final_any [OF run] AIns have l: "lineOf \<sigma> x = ?l" by simp
      with AIns have "writeLines wr out (linesOf \<sigma> [x]) = fst ?w"
        by (simp add: linesOf_simps writeLines_simps)
      moreover from False l AIns have "writesOk wr out (linesOf \<sigma> [x])"
        by (simp add: linesOf_simps writeOk_def)
      ultimately show ?thesis using Cons.IH [OF run] AIns by (intro step) simp_all
    qed
  next
    case (CIns c)
    show ?thesis
    proof (cases "codeCInstruction c")
      case (Inl err)
      with Cons.prems CIns have "err = e" "out' = out"
        by (simp_all add: codeEmit_C del: codeEmit.simps)
      with Inl CIns have "x # ins = [] @ x # ins"
        "\<forall>c'. CIns c' \<in> set [] \<longrightarrow> (\<exists>s. codeCInstruction c' = Inr s)"
        "writesOk wr out (linesOf \<sigma> [])"
        "\<exists>c. x = CIns c \<and> codeCInstruction c = Inl e
               \<and> out' = writeLines wr out (linesOf \<sigma> [])"
        by (simp_all add: linesOf_simps writeLines_simps)
      then show ?thesis by blast
    next
      case (Inr s)
      let ?w = "wr out (s @ [CHR 0x0A])"
      from Inr CIns have l: "lineOf \<sigma> x = s @ [CHR 0x0A]" by simp
      with CIns have line: "writeLines wr out (linesOf \<sigma> [x]) = fst ?w"
        by (simp add: linesOf_simps writeLines_simps)
      show ?thesis
      proof (cases "fst (snd ?w) \<noteq> 17 \<or> snd (snd ?w)")
        case True
        with Cons.prems CIns Inr have e: "e = WriteError (writeFaultOf wr out (s @ [CHR 0x0A]))"
          and o: "out' = fst ?w"
          by (auto simp add: codeEmit_C Let_def writeFaultOf_def simp del: codeEmit.simps
              split: if_splits)
        from True have "\<not> writeOk wr out (s @ [CHR 0x0A])" by (auto simp: writeOk_def)
        with e o CIns Inr show ?thesis unfolding l [symmetric] by (intro stop) simp_all
      next
        case False
        with Cons.prems CIns Inr have run:
          "codeEmit wr ins st nva (fst ?w) = (Some e, \<sigma>, nva', out')"
          by (simp add: codeEmit_C Let_def del: codeEmit.simps)
        from False l CIns have "writesOk wr out (linesOf \<sigma> [x])"
          by (simp add: linesOf_simps writeOk_def)
        with Cons.IH [OF run] line CIns Inr show ?thesis by (intro step) simp_all
      qed
    qed
  next
    case (LabelIns l)
    with Cons.prems have run: "codeEmit wr ins st nva out = (Some e, \<sigma>, nva', out')"
      by simp
    from LabelIns have "writeLines wr out (linesOf \<sigma> [x]) = out"
      "writesOk wr out (linesOf \<sigma> [x])"
      by (simp_all add: linesOf_simps writeLines_simps)
    with Cons.IH [OF run] LabelIns show ?thesis by (intro step) simp_all
  qed
qed

lemma code_stops:
  assumes "code order wr ins out = (Some e, out')"
    and "\<not> ((\<exists>l. e = DuplicateLabelError l) \<or> (\<exists>l. e = ReservedSymbolError l))"
  shows "\<exists>pre i rest. ins = pre @ i # rest
        \<and> (\<forall>c'. CIns c' \<in> set pre \<longrightarrow> (\<exists>s. codeCInstruction c' = Inr s))
        \<and> writesOk wr out (linesOf (finalSymbolTable order wr ins out) pre)
        \<and> ((\<exists>c. i = CIns c \<and> codeCInstruction c = Inl e
               \<and> out' = writeLines wr out (linesOf (finalSymbolTable order wr ins out) pre))
           \<or> (\<not> isLabel i \<and> (\<forall>c. i = CIns c \<longrightarrow> (\<exists>s. codeCInstruction c = Inr s))
               \<and> \<not> writeOk wr
                     (writeLines wr out (linesOf (finalSymbolTable order wr ins out) pre))
                     (lineOf (finalSymbolTable order wr ins out) i)
               \<and> e = WriteError
                     (writeFaultOf wr
                        (writeLines wr out (linesOf (finalSymbolTable order wr ins out) pre))
                        (lineOf (finalSymbolTable order wr ins out) i))
               \<and> out' = writeLines wr out
                    (linesOf (finalSymbolTable order wr ins out) (pre @ [i]))))"
proof (cases "codeLabels ins 0 Map.empty")
  case (Inl err)
  with assms(1) have "err = e" by (simp add: code_def)
  with Inl assms(2) codeLabels_errors show ?thesis by blast
next
  case (Inr st)
  with assms(1) obtain \<sigma> nva' where
    run: "codeEmit wr ins (rangeStore order st) 16 out = (Some e, \<sigma>, nva', out')"
    by (auto simp: code_def split: prod.splits)
  with Inr have "finalSymbolTable order wr ins out = \<sigma>"
    by (simp add: finalSymbolTable_def)
  with codeEmit_stops [OF run] show ?thesis by simp
qed

lemma code_buffer_failure:
  assumes "code order bufferWrite ins out = (Some e, out')"
    and "\<not> ((\<exists>l. e = DuplicateLabelError l) \<or> (\<exists>l. e = ReservedSymbolError l))"
  shows "\<exists>pre c rest. ins = pre @ CIns c # rest \<and> codeCInstruction c = Inl e
        \<and> (\<forall>c'. CIns c' \<in> set pre \<longrightarrow> (\<exists>s. codeCInstruction c' = Inr s))
        \<and> out' = out @ concat (map (lineOf (finalSymbolTable order bufferWrite ins out)) pre)"
proof (cases "codeLabels ins 0 Map.empty")
  case (Inl err)
  with assms(1) have "err = e" by (simp add: code_def)
  with Inl assms(2) codeLabels_errors show ?thesis by blast
next
  case (Inr st)
  with assms(1) obtain \<sigma> nva' where
    run: "codeEmit bufferWrite ins (rangeStore order st) 16 out = (Some e, \<sigma>, nva', out')"
    by (auto simp: code_def split: prod.splits)
  with Inr have "finalSymbolTable order bufferWrite ins out = \<sigma>"
    by (simp add: finalSymbolTable_def)
  with codeEmit_failure [OF run] show ?thesis by simp
qed

lemma linesOf_whole:
  assumes "\<forall>c. CIns c \<in> set ins \<longrightarrow> (\<exists>s. codeCInstruction c = Inr s)"
  shows "\<forall>l \<in> set (linesOf \<sigma> ins). length l = 17"
proof
  fix l assume "l \<in> set (linesOf \<sigma> ins)"
  then obtain i where i: "i \<in> set ins" "\<not> isLabel i" "l = lineOf \<sigma> i"
    by (auto simp: linesOf_def)
  from i(1) assms have "\<forall>c. i = CIns c \<longrightarrow> (\<exists>s. codeCInstruction c = Inr s)"
    by auto
  from lineOf_whole [OF this, of \<sigma>] i(2,3) show "length l = 17"
    by simp
qed

section \<open>Parsing\<close>

lemma parseAInstruction_errors: "parseAInstruction ut inp = Inl e \<Longrightarrow> \<exists>f. e = ParseError f"
  by (auto simp: parseAInstruction_def Let_def split: if_splits sum.splits)

lemma parseLabel_errors: "parseLabel ut inp = Inl e \<Longrightarrow> \<exists>f. e = ParseError f"
  by (auto simp: parseLabel_def Let_def split: if_splits)

lemma parseCInstruction_total: "\<exists>c. parseCInstruction inp = Inr c"
  by (simp add: parseCInstruction_def split: prod.splits)

lemma parseLines_errors: "parseLines ut ls acc = Inl e \<Longrightarrow> \<exists>f. e = ParseError f"
proof (induction ls arbitrary: acc)
  case Nil
  then show ?case by simp
next
  case (Cons l ls)
  obtain c where c: "parseCInstruction (TrimSpace (fst (Cut l ''//''))) = Inr c"
    using parseCInstruction_total by blast
  from Cons.prems c show ?case
    by (auto simp: Let_def split: prod.splits if_splits sum.splits
        dest: parseAInstruction_errors parseLabel_errors Cons.IH)
qed

lemma foldl_decimal_ge: "m \<le> foldl (\<lambda>n c. 10 * n + (byte c - 0x30)) m cs"
proof (induction cs arbitrary: m)
  case Nil
  show ?case by simp
next
  case (Cons c cs)
  have "m \<le> 10 * m + (byte c - 0x30)" by simp
  also have "\<dots> \<le> foldl (\<lambda>n c. 10 * n + (byte c - 0x30)) (10 * m + (byte c - 0x30)) cs"
    by (rule Cons.IH)
  finally show ?case by simp
qed

lemma parseDigits_digits:
  assumes "list_all isDecimalDigit s" and "n \<le> maxVal" and "maxVal \<le> maxUint64 div 10"
  shows "parseDigits maxVal s n =
           (if foldl (\<lambda>n c. 10 * n + (byte c - 0x30)) n s \<le> maxVal
            then Inr (foldl (\<lambda>n c. 10 * n + (byte c - 0x30)) n s) else Inl ErrRange)"
  using assms
proof (induction s arbitrary: n)
  case Nil
  then show ?case by simp
next
  case (Cons c cs)
  from Cons.prems have "isDecimalDigit c" and rest: "list_all isDecimalDigit cs"
    by simp_all
  then have d: "0x30 \<le> byte c" "byte c \<le> 0x39"
    by (simp_all add: isDecimalDigit_def)
  from Cons.prems have small: "\<not> n \<ge> maxUint64 div 10 + 1"
    by simp
  show ?case
  proof (cases "n * 10 + (byte c - 0x30) > maxVal")
    case True
    have "n * 10 + (byte c - 0x30)
            \<le> foldl (\<lambda>n c. 10 * n + (byte c - 0x30)) (10 * n + (byte c - 0x30)) cs"
      using foldl_decimal_ge [of "10 * n + (byte c - 0x30)" cs] by (simp add: mult.commute)
    with True d small show ?thesis
      by (simp add: Let_def)
  next
    case False
    then have "n * 10 + (byte c - 0x30) \<le> maxVal" by simp
    from Cons.IH [OF rest this Cons.prems(3)] d small False show ?thesis
      by (simp add: Let_def mult.commute)
  qed
qed

lemma parseDigits_syntax:
  "\<not> list_all isDecimalDigit s \<Longrightarrow> \<exists>e. parseDigits maxVal s n = Inl e"
proof (induction s arbitrary: n)
  case Nil
  then show ?case by simp
next
  case (Cons c cs)
  then show ?case
    by (cases "isDecimalDigit c") (auto simp: Let_def isDecimalDigit_def)
qed

lemma ParseUint10_digits:
  assumes "t \<noteq> []" and "list_all isDecimalDigit t"
  shows "ParseUint10 t 15 =
           (if decimalValue t \<le> 32767 then Inr (decimalValue t) else Inl ErrRange)"
proof -
  from assms(2) have "parseDigits 32767 t 0 =
      (if decimalValue t \<le> 32767 then Inr (decimalValue t) else Inl ErrRange)"
    unfolding decimalValue_def
    by (intro parseDigits_digits) (simp_all add: maxUint64_def)
  with assms(1) show ?thesis
    by (simp add: ParseUint10_def)
qed

lemma ParseUint10_not_digits:
  "\<not> list_all isDecimalDigit t \<Longrightarrow> \<exists>e. ParseUint10 t 15 = Inl e"
  using parseDigits_syntax [of t "2 ^ 15 - 1" 0] by (auto simp: ParseUint10_def)

lemma unat_of_nat_small: "n \<le> 32767 \<Longrightarrow> unat (of_nat n :: 16 word) = n"
  by (simp add: unat_of_nat)

lemma parseDigits_bound:
  "parseDigits maxVal s n = Inr v \<Longrightarrow> n \<le> maxVal \<Longrightarrow> v \<le> maxVal"
proof (induction s arbitrary: n)
  case Nil
  then show ?case by simp
next
  case (Cons c cs)
  then show ?case
    by (auto simp: Let_def split: if_splits)
qed

lemma parseAInstruction_range:
  assumes "parseAInstruction ut inp = Inr a" and "\<not> IsSymbol a"
  shows "unat (Value a) < 32768"
proof -
  from assms obtain v where v: "ParseUint10 (drop 1 inp) 15 = Inr v" and a: "Value a = of_nat v"
    by (auto simp: parseAInstruction_def Let_def split: if_splits sum.splits)
  from v have "parseDigits (2 ^ 15 - 1) (drop 1 inp) 0 = Inr v"
    by (simp add: ParseUint10_def split: if_splits)
  then have "v \<le> 2 ^ 15 - 1"
    by (rule parseDigits_bound) simp
  then have "v \<le> 32767" by simp
  with a show ?thesis
    by (simp add: unat_of_nat_small)
qed

lemma parseLines_range:
  assumes "parseLines ut ls acc = Inr ins"
    and "\<forall>a. AIns a \<in> set acc \<longrightarrow> \<not> IsSymbol a \<longrightarrow> unat (Value a) < 32768"
  shows "\<forall>a. AIns a \<in> set ins \<longrightarrow> \<not> IsSymbol a \<longrightarrow> unat (Value a) < 32768"
  using assms
proof (induction ls arbitrary: acc)
  case Nil
  then show ?case by simp
next
  case (Cons l ls)
  let ?command = "TrimSpace (fst (Cut l ''//''))"
  show ?case
  proof (cases "length ?command = 0")
    case True
    with Cons.prems(1) have "parseLines ut ls acc = Inr ins"
      by (simp add: Let_def split: prod.splits)
    from Cons.IH [OF this Cons.prems(2)] show ?thesis .
  next
    case False
    show ?thesis
    proof (cases "hd ?command = CHR ''@''")
      case True
      with False Cons.prems(1) obtain a where a: "parseAInstruction ut ?command = Inr a"
        and rest: "parseLines ut ls (acc @ [AIns a]) = Inr ins"
        by (auto simp: Let_def split: prod.splits sum.splits)
      from parseAInstruction_range [OF a] Cons.prems(2)
      have "\<forall>b. AIns b \<in> set (acc @ [AIns a]) \<longrightarrow> \<not> IsSymbol b \<longrightarrow> unat (Value b) < 32768"
        by auto
      from Cons.IH [OF rest this] show ?thesis .
    next
      case notA: False
      show ?thesis
      proof (cases "hd ?command = CHR ''(''")
        case True
        with False notA Cons.prems(1) obtain lab where
          rest: "parseLines ut ls (acc @ [LabelIns lab]) = Inr ins"
          by (auto simp: Let_def split: prod.splits sum.splits)
        from Cons.prems(2)
        have "\<forall>b. AIns b \<in> set (acc @ [LabelIns lab]) \<longrightarrow> \<not> IsSymbol b
                \<longrightarrow> unat (Value b) < 32768"
          by auto
        from Cons.IH [OF rest this] show ?thesis .
      next
        case notL: False
        with False notA Cons.prems(1) obtain c where
          rest: "parseLines ut ls (acc @ [CIns c]) = Inr ins"
          by (auto simp: Let_def split: prod.splits sum.splits)
        from Cons.prems(2)
        have "\<forall>b. AIns b \<in> set (acc @ [CIns c]) \<longrightarrow> \<not> IsSymbol b
                \<longrightarrow> unat (Value b) < 32768"
          by auto
        from Cons.IH [OF rest this] show ?thesis .
      qed
    qed
  qed
qed

lemma parse_range:
  "parse ut r = Inr ins \<Longrightarrow> AIns a \<in> set ins \<Longrightarrow> \<not> IsSymbol a \<Longrightarrow> unat (Value a) < 32768"
  using parseLines_range [of ut "Scan r" "[]" ins] by (simp add: parse_def)

text \<open>
  A line \<open>@t\<close> whose \<open>t\<close> starts with one of the bytes \<open>0\<close> to \<open>9\<close> is parsed if and
  only if \<open>t\<close> consists of such bytes and denotes a number of at most 32767, and then
  it is encoded as the sixteen binary digits of that number, the first one 0.
\<close>

lemma parseAInstruction_decimal:
  assumes "t \<noteq> []" and "isDecimalDigit (hd t)"
  shows "(list_all isDecimalDigit t \<and> decimalValue t \<le> 32767 \<longrightarrow>
            parseAInstruction ut (CHR ''@'' # t) =
              Inr \<lparr>Literal = t, IsSymbol = False, Value = of_nat (decimalValue t)\<rparr>
            \<and> code order bufferWrite
                 [AIns \<lparr>Literal = t, IsSymbol = False, Value = of_nat (decimalValue t)\<rparr>] out =
                 (None, out @ fmt016b (of_nat (decimalValue t)) @ [CHR 0x0A])
            \<and> length (fmt016b (of_nat (decimalValue t))) = 16
            \<and> set (fmt016b (of_nat (decimalValue t))) \<subseteq> {CHR ''0'', CHR ''1''}
            \<and> binaryValue (fmt016b (of_nat (decimalValue t))) = decimalValue t
            \<and> hd (fmt016b (of_nat (decimalValue t))) = CHR ''0'')
       \<and> (\<not> (list_all isDecimalDigit t \<and> decimalValue t \<le> 32767) \<longrightarrow>
            (\<exists>e. parseAInstruction ut (CHR ''@'' # t) = Inl (ParseError (NotUnsigned15Bit e))))"
proof -
  from assms have digit: "IsDigit ut (byte (hd t))"
    by (simp add: IsDigit_def isDecimalDigit_def)
  from assms(1) digit have parse: "parseAInstruction ut (CHR ''@'' # t) =
      (case ParseUint10 t 15 of
         Inl err \<Rightarrow> Inl (ParseError (NotUnsigned15Bit err))
       | Inr v \<Rightarrow> Inr \<lparr>Literal = t, IsSymbol = False, Value = of_nat v\<rparr>)"
    by (cases t) (auto simp add: parseAInstruction_def Let_def split: sum.splits)
  show ?thesis
  proof (intro conjI impI)
    assume ok: "list_all isDecimalDigit t \<and> decimalValue t \<le> 32767"
    with assms(1) have "ParseUint10 t 15 = Inr (decimalValue t)"
      by (simp add: ParseUint10_digits)
    with parse show "parseAInstruction ut (CHR ''@'' # t) =
        Inr \<lparr>Literal = t, IsSymbol = False, Value = of_nat (decimalValue t)\<rparr>"
      by simp
    show "code order bufferWrite
        [AIns \<lparr>Literal = t, IsSymbol = False, Value = of_nat (decimalValue t)\<rparr>] out =
        (None, out @ fmt016b (of_nat (decimalValue t)) @ [CHR 0x0A])"
      by (simp add: code_def codeEmit_buffer_A resolve_def resolvedValue_def
          del: codeEmit.simps(2))
    show "length (fmt016b (of_nat (decimalValue t))) = 16"
      by (rule length_fmt016b)
    show "set (fmt016b (of_nat (decimalValue t))) \<subseteq> {CHR ''0'', CHR ''1''}"
      by (rule fmt016b_chars)
    from ok show "binaryValue (fmt016b (of_nat (decimalValue t))) = decimalValue t"
      by (simp add: binaryValue_fmt016b unat_of_nat_small)
    from ok show "hd (fmt016b (of_nat (decimalValue t))) = CHR ''0''"
      by (simp add: hd_fmt016b unat_of_nat_small)
  next
    assume bad: "\<not> (list_all isDecimalDigit t \<and> decimalValue t \<le> 32767)"
    with assms(1) obtain e where "ParseUint10 t 15 = Inl e"
      using ParseUint10_not_digits [of t] ParseUint10_digits [of t]
      by (cases "list_all isDecimalDigit t") auto
    with parse show "\<exists>e. parseAInstruction ut (CHR ''@'' # t) = Inl (ParseError (NotUnsigned15Bit e))"
      by simp
  qed
qed

section \<open>The symbol table of a successful run\<close>

lemma map_add_label:
  assumes "codeLabels ins 0 Map.empty = Inr st" and "st k = Some v"
  shows "(st ++ predefinedSymbols) k = Some v"
proof -
  from assms(2) have "k \<in> dom st" by auto
  with codeLabels_dom [OF assms(1)] have "k \<in> set (labelsDeclared ins)" by simp
  moreover from codeLabels_succeeds [of ins 0 Map.empty] assms(1)
  have "set (labelsDeclared ins) \<inter> dom predefinedSymbols = {}" by auto
  ultimately have "predefinedSymbols k = None" by auto
  with assms(2) show ?thesis by (simp add: map_add_def)
qed

lemma code_buffer_succeeds:
  "fst (code order bufferWrite ins out) = None \<longleftrightarrow>
     distinct (labelsDeclared ins) \<and> set (labelsDeclared ins) \<inter> dom predefinedSymbols = {}
       \<and> (\<forall>c. CIns c \<in> set ins \<longrightarrow> (\<exists>s. codeCInstruction c = Inr s))"
proof (cases "codeLabels ins 0 Map.empty")
  case (Inl e)
  with codeLabels_succeeds [of ins 0 Map.empty] show ?thesis
    by (auto simp: code_def)
next
  case (Inr st)
  have "fst (code order bufferWrite ins out)
          = fst (codeEmit bufferWrite ins (rangeStore order st) 16 out)"
    using Inr by (simp add: code_def split: prod.splits)
  with Inr codeLabels_succeeds [of ins 0 Map.empty]
    codeEmit_succeeds [of ins "rangeStore order st" 16 out]
  show ?thesis by auto
qed

lemma successful_run_facts:
  assumes order: "mset order = mset predefinedEntries"
    and run: "code order bufferWrite ins out = (None, out')"
  shows "\<exists>st. codeLabels ins 0 Map.empty = Inr st
     \<and> out' = out @ concat (map (lineOf (finalSymbolTable order bufferWrite ins out)) ins)
     \<and> (\<forall>k v. (st ++ predefinedSymbols) k = Some v
            \<longrightarrow> finalSymbolTable order bufferWrite ins out k = Some v)
     \<and> dom (finalSymbolTable order bufferWrite ins out)
          = dom st \<union> dom predefinedSymbols \<union> set (variables ins)
     \<and> (\<forall>j < length (variables ins).
            finalSymbolTable order bufferWrite ins out (variables ins ! j) = Some (16 + of_nat j))"
proof -
  from order run obtain st nva' where st: "codeLabels ins 0 Map.empty = Inr st"
    and emit: "codeEmit bufferWrite ins (st ++ predefinedSymbols) 16 out =
           (None, finalSymbolTable order bufferWrite ins out, nva', out')"
    by (rule successful_run)
  note vars = variables_newVars [OF st]
  from codeEmit_variables [OF emit, unfolded vars] have
    "dom (finalSymbolTable order bufferWrite ins out)
          = dom st \<union> dom predefinedSymbols \<union> set (variables ins)"
    "\<forall>j < length (variables ins).
            finalSymbolTable order bufferWrite ins out (variables ins ! j) = Some (16 + of_nat j)"
    by auto
  moreover have "\<forall>k v. (st ++ predefinedSymbols) k = Some v
            \<longrightarrow> finalSymbolTable order bufferWrite ins out k = Some v"
    using codeEmit_keeps [OF emit] by blast
  moreover note codeEmit_output [OF emit] st
  ultimately show ?thesis by blast
qed

lemma distinct_variables: "distinct (variables ins)"
  using newVars_distinct [of "dom predefinedSymbols \<union> set (labelsDeclared ins)" ins]
  by (simp add: newVars_firsts variables_def)

lemma length_variables: "length (variables ins) \<le> length ins"
  using length_newVars [of "dom predefinedSymbols \<union> set (labelsDeclared ins)" ins]
  by (simp add: newVars_firsts variables_def)

lemma set_variables:
  "set (variables ins) = set (symbolsUsed ins) - dom predefinedSymbols - set (labelsDeclared ins)"
  using set_newVars [of "dom predefinedSymbols \<union> set (labelsDeclared ins)" ins]
  by (auto simp: newVars_firsts variables_def)

lemma instructionsBefore_le: "instructionsBefore ins i \<le> i"
  unfolding instructionsBefore_def
  by (rule le_trans [OF length_filter_le]) simp

lemma predefined_small: "predefinedSymbols k = Some v \<Longrightarrow> unat v < 32768"
  unfolding predefinedSymbols_def predefinedEntries_def
  by (drule map_of_values) auto

lemma resolved_symbol:
  assumes order: "mset order = mset predefinedEntries"
    and run: "code order bufferWrite ins out = (None, out')"
    and a: "AIns a \<in> set ins" "IsSymbol a"
  shows "\<exists>v. finalSymbolTable order bufferWrite ins out (Literal a) = Some v
     \<and> (predefinedSymbols (Literal a) = Some v
        \<or> (\<exists>i l. i < length ins \<and> ins ! i = LabelIns l \<and> label.Literal l = Literal a
              \<and> v = of_nat (instructionsBefore ins i))
        \<or> (\<exists>j < length (variables ins). variables ins ! j = Literal a \<and> v = 16 + of_nat j))"
proof -
  let ?\<sigma> = "finalSymbolTable order bufferWrite ins out" and ?k = "Literal a"
  from successful_run_facts [OF order run] obtain st where
    st: "codeLabels ins 0 Map.empty = Inr st"
    and keeps: "\<forall>k v. (st ++ predefinedSymbols) k = Some v \<longrightarrow> ?\<sigma> k = Some v"
    and vars: "\<forall>j < length (variables ins). ?\<sigma> (variables ins ! j) = Some (16 + of_nat j)"
    by blast
  show ?thesis
  proof (cases "predefinedSymbols ?k")
    case (Some v)
    then have "(st ++ predefinedSymbols) ?k = Some v" by (simp add: map_add_def)
    with keeps have "?\<sigma> ?k = Some v" by simp
    with Some show ?thesis by simp
  next
    case None
    show ?thesis
    proof (cases "st ?k")
      case (Some v)
      with None have "(st ++ predefinedSymbols) ?k = Some v" by (simp add: map_add_def)
      with keeps have "?\<sigma> ?k = Some v" by simp
      moreover from Some label_pass_table [OF st, of ?k v]
      have "\<exists>i l. i < length ins \<and> ins ! i = LabelIns l \<and> label.Literal l = ?k
              \<and> v = of_nat (instructionsBefore ins i)"
        by simp
      ultimately show ?thesis by simp
    next
      case no_label: None
      from no_label codeLabels_dom [OF st] have "?k \<notin> set (labelsDeclared ins)"
        by (auto simp: domIff)
      with None symbolsUsed_mem [OF a] have "?k \<in> set (variables ins)"
        by (auto simp: set_variables domIff)
      then obtain j where j: "j < length (variables ins)" "variables ins ! j = ?k"
        by (auto simp: in_set_conv_nth)
      with vars have "?\<sigma> ?k = Some (16 + of_nat j)" by auto
      with j show ?thesis by auto
    qed
  qed
qed

lemma unat_label_address:
  "unat (of_nat (instructionsBefore ins i) :: 16 word) = instructionsBefore ins i mod 65536"
  by (simp add: unat_of_nat)

lemma unat_variable_address: "unat (16 + of_nat j :: 16 word) = (16 + j) mod 65536"
proof -
  have "(16 + of_nat j :: 16 word) = of_nat (16 + j)" by simp
  then show ?thesis by (simp only: unat_of_nat) simp
qed

section \<open>Evaluation on example programs\<close>

lemma scan_add:
  "Scan ''@2\<newline>D=A\<newline>@3\<newline>D=D+A\<newline>@0\<newline>M=D'' =
     [''@2'', ''D=A'', ''@3'', ''D=D+A'', ''@0'', ''M=D'']"
  unfolding Scan_def
  apply simp
  apply (simp add: MaxScanTokenSize_def)
  apply (simp add: dropCR_def)
  done

lemmas trim_eval = TrimSpace_def trimLeftSpace.simps trimRightSpace.simps spaceWidth_def
  spaceWidthEnd_def whiteSpace_def byte_def

lemma trim_add:
  "TrimSpace ''@2'' = ''@2''" "TrimSpace ''@3'' = ''@3''" "TrimSpace ''@0'' = ''@0''"
  "TrimSpace ''D=A'' = ''D=A''" "TrimSpace ''D=D+A'' = ''D=D+A''" "TrimSpace ''M=D'' = ''M=D''"
  "TrimSpace ''D'' = ''D''" "TrimSpace ''M'' = ''M''" "TrimSpace ''A'' = ''A''"
  "TrimSpace ''D+A'' = ''D+A''" "TrimSpace [] = []"
  by (simp_all add: trim_eval)

lemma parseA_add:
  "parseAInstruction ut ''@2'' = Inr \<lparr>Literal = ''2'', IsSymbol = False, Value = 2\<rparr>"
  "parseAInstruction ut ''@3'' = Inr \<lparr>Literal = ''3'', IsSymbol = False, Value = 3\<rparr>"
  "parseAInstruction ut ''@0'' = Inr \<lparr>Literal = ''0'', IsSymbol = False, Value = 0\<rparr>"
  by (simp_all add: parseAInstruction_def IsDigit_def byte_def ParseUint10_def maxUint64_def)

lemma parseC_add:
  "parseCInstruction ''D=A'' = Inr \<lparr>Dest = ''D'', Comp = ''A'', Jump = []\<rparr>"
  "parseCInstruction ''D=D+A'' = Inr \<lparr>Dest = ''D'', Comp = ''D+A'', Jump = []\<rparr>"
  "parseCInstruction ''M=D'' = Inr \<lparr>Dest = ''M'', Comp = ''D'', Jump = []\<rparr>"
  by (simp_all add: parseCInstruction_def trim_add)

lemma parse_add:
  "parse ut ''@2\<newline>D=A\<newline>@3\<newline>D=D+A\<newline>@0\<newline>M=D'' =
     Inr [AIns \<lparr>Literal = ''2'', IsSymbol = False, Value = 2\<rparr>,
          CIns \<lparr>Dest = ''D'', Comp = ''A'', Jump = []\<rparr>,
          AIns \<lparr>Literal = ''3'', IsSymbol = False, Value = 3\<rparr>,
          CIns \<lparr>Dest = ''D'', Comp = ''D+A'', Jump = []\<rparr>,
          AIns \<lparr>Literal = ''0'', IsSymbol = False, Value = 0\<rparr>,
          CIns \<lparr>Dest = ''M'', Comp = ''D'', Jump = []\<rparr>]"
  unfolding parse_def scan_add
  by (simp add: trim_add parseA_add parseC_add)

lemma fmt_add:
  "fmt016b 2 = ''0000000000000010''" "fmt016b 3 = ''0000000000000011''"
  "fmt016b 0 = ''0000000000000000''"
  by code_simp+

lemma codeC_add:
  "codeCInstruction \<lparr>Dest = ''D'', Comp = ''A'', Jump = []\<rparr> = Inr ''1110110000010000''"
  "codeCInstruction \<lparr>Dest = ''D'', Comp = ''D+A'', Jump = []\<rparr> = Inr ''1110000010010000''"
  "codeCInstruction \<lparr>Dest = ''M'', Comp = ''D'', Jump = []\<rparr> = Inr ''1110001100001000''"
  by (simp_all add: codeCInstruction_def compToA_def compToC_def destToD_def jumpToJ_def)

lemma cut_bare: "Cut ''D'' ''='' = (''D'', [], False)" "Cut ''D'' '';'' = (''D'', [], False)"
  "Cut ''=;'' ''='' = ([], '';'', True)" "Cut '';'' '';'' = ([], [], True)"
  by simp_all

lemma trim_bare: "TrimSpace ''D'' = ''D''" "TrimSpace [] = []"
  by (simp_all add: trim_eval)

lemma containsOnly_Nil: "containsOnly [] f"
  by (simp add: containsOnly.simps)

lemma containsOnly_A: "containsOnly ''A'' (validSymbolChars ut)"
  by (simp add: containsOnly.simps containsOnly_Nil validSymbolChars_def IsLetter_def byte_def)

lemma trim_parens: "Trim ''(()'' ''()'' = []" "Trim ''((A))'' ''()'' = ''A''"
  by (simp_all add: Trim_def)

lemma scan_bare: "Scan ''D'' = [''D'']" "Scan ''(()'' = [''(()'']"
  unfolding Scan_def
   apply simp_all
   apply (simp_all add: MaxScanTokenSize_def)
   apply (simp_all add: dropCR_def)
  done

lemma parseC_bare: "parseCInstruction ''D'' = Inr \<lparr>Dest = [], Comp = ''D'', Jump = []\<rparr>"
  "parseCInstruction ''=;'' = Inr \<lparr>Dest = [], Comp = [], Jump = []\<rparr>"
  by (simp_all add: parseCInstruction_def cut_bare trim_bare del: Cut.simps)

lemma codeC_bare:
  "codeCInstruction \<lparr>Dest = [], Comp = ''D'', Jump = []\<rparr> = Inr ''1110001100000000''"
  by (simp add: codeCInstruction_def compToA_def compToC_def)

lemma trim_nested: "TrimSpace ''(()'' = ''(()''"
  by (simp add: trim_eval)

lemma parseLabel_nested: "parseLabel ut ''(()'' = Inr \<lparr>label.Literal = []\<rparr>"
  "parseLabel ut ''((A))'' = Inr \<lparr>label.Literal = ''A''\<rparr>"
  by (simp_all add: parseLabel_def trim_parens containsOnly_Nil containsOnly_A)

lemma scan_foo: "Scan ''@2\<newline>FOO'' = [''@2'', ''FOO'']"
  unfolding Scan_def
  apply simp
  apply (simp add: MaxScanTokenSize_def)
  apply (simp add: dropCR_def)
  done

lemma trim_foo: "TrimSpace ''FOO'' = ''FOO''"
  by (simp add: trim_eval)

lemma parseC_foo: "parseCInstruction ''FOO'' = Inr \<lparr>Dest = [], Comp = ''FOO'', Jump = []\<rparr>"
  by (simp add: parseCInstruction_def trim_foo trim_add)

lemma parse_foo:
  "parse ut ''@2\<newline>FOO'' =
     Inr [AIns \<lparr>Literal = ''2'', IsSymbol = False, Value = 2\<rparr>,
          CIns \<lparr>Dest = [], Comp = ''FOO'', Jump = []\<rparr>]"
  unfolding parse_def scan_foo
  by (simp add: trim_add trim_foo parseA_add parseC_foo)

lemma codeC_foo:
  "codeCInstruction \<lparr>Dest = [], Comp = ''FOO'', Jump = []\<rparr> = Inl (UnknownMnemonicError ABit ''FOO'')"
  by (simp add: codeCInstruction_def compToA_def)

lemma assemble_foo:
  "Assemble ut order bufferWrite ''@2\<newline>FOO'' [] =
     (Some (UnknownMnemonicError ABit ''FOO''), ''0000000000000010\<newline>'')"
  unfolding Assemble_def parse_foo
  by (simp add: code_def codeEmit_buffer_A codeEmit_buffer_C resolve_def resolvedValue_def
      fmt_add codeC_foo del: codeEmit.simps(2,3))

lemma scan_R0: "Scan ''(R0)'' = [''(R0)'']"
  unfolding Scan_def
  apply simp
  apply (simp add: MaxScanTokenSize_def)
  apply (simp add: dropCR_def)
  done

lemma trim_R0: "TrimSpace ''(R0)'' = ''(R0)''"
  by (simp add: trim_eval)

lemma containsOnly_R0: "containsOnly ''R0'' (validSymbolChars ut)"
  by (simp add: containsOnly.simps validSymbolChars_def IsLetter_def IsDigit_def byte_def)

lemma parseLabel_R0: "parseLabel ut ''(R0)'' = Inr \<lparr>label.Literal = ''R0''\<rparr>"
  by (simp add: parseLabel_def Trim_def containsOnly_R0)

lemma assemble_R0:
  "Assemble ut order wr ''(R0)'' out = (Some (ReservedSymbolError ''R0''), out)"
  unfolding Assemble_def parse_def scan_R0
  by (simp add: trim_R0 parseLabel_R0 code_def predefinedSymbols_def predefinedEntries_def)

lemma labelsDeclared_append:
  "labelsDeclared (xs @ ys) = labelsDeclared xs @ labelsDeclared ys"
  by (induction xs rule: labelsDeclared.induct) auto

lemma labelsDeclared_replicate_C: "labelsDeclared (replicate n (CIns c)) = []"
  by (induction n) auto

lemma labelsDeclared_long: "labelsDeclared (longProgram n) = [''END'']"
  by (simp add: longProgram_def labelsDeclared_append labelsDeclared_replicate_C)

lemma END_not_predefined: "''END'' \<notin> dom predefinedSymbols"
  by (simp add: predefinedSymbols_def predefinedEntries_def dom_map_of_conv_image_fst)

lemma codeC_zero:
  "codeCInstruction \<lparr>Dest = [], Comp = ''0'', Jump = []\<rparr> = Inr ''1110101010000000''"
  by (simp add: codeCInstruction_def compToA_def compToC_def)

lemma long_nth: "longProgram n ! n = LabelIns \<lparr>label.Literal = ''END''\<rparr>"
  by (simp add: longProgram_def nth_append)

lemma long_before: "instructionsBefore (longProgram n) n = n"
  by (simp add: instructionsBefore_def longProgram_def)

lemma long_run:
  "code predefinedEntries bufferWrite (longProgram n) [] =
     (None, concat (replicate n ''1110101010000000\<newline>'') @ fmt016b (of_nat n) @ ''\<newline>'')"
proof -
  let ?\<sigma> = "finalSymbolTable predefinedEntries bufferWrite (longProgram n) []"
  have "\<forall>c. CIns c \<in> set (longProgram n) \<longrightarrow> (\<exists>s. codeCInstruction c = Inr s)"
    by (auto simp: longProgram_def codeC_zero)
  then have "fst (code predefinedEntries bufferWrite (longProgram n) []) = None"
    using END_not_predefined by (simp add: code_buffer_succeeds labelsDeclared_long)
  then obtain out' where run: "code predefinedEntries bufferWrite (longProgram n) [] = (None, out')"
    by (cases "code predefinedEntries bufferWrite (longProgram n) []") auto
  from successful_run_facts [OF refl run] obtain st where
    st: "codeLabels (longProgram n) 0 Map.empty = Inr st"
    and out: "out' = [] @ concat (map (lineOf ?\<sigma>) (longProgram n))"
    and keeps: "\<forall>k v. (st ++ predefinedSymbols) k = Some v \<longrightarrow> ?\<sigma> k = Some v"
    by blast
  have len: "n < length (longProgram n)"
    by (simp add: longProgram_def)
  from codeLabels_address [OF st len long_nth] have "st ''END'' = Some (of_nat n)"
    by (simp add: long_before)
  from map_add_label [OF st this] keeps have "?\<sigma> ''END'' = Some (of_nat n)"
    by simp
  with out have "out' = concat (replicate n ''1110101010000000\<newline>'') @ fmt016b (of_nat n) @ ''\<newline>''"
    by (simp add: longProgram_def codeC_zero resolvedValue_def map_replicate_const)
  with run show ?thesis by simp
qed

lemma rawLines_zeros:
  "rawLines (concat (replicate n ''0\<newline>'') @ rest) [] = replicate n ''0'' @ rawLines rest []"
  by (induction n) simp_all

lemma scan_long:
  "Scan (concat (replicate n ''0\<newline>'') @ ''(END)\<newline>@END'') =
     replicate n ''0'' @ [''(END)'', ''@END'']"
proof -
  have "rawLines ''(END)\<newline>@END'' [] = [''(END)'', ''@END'']"
    by simp
  then have "rawLines (concat (replicate n ''0\<newline>'') @ ''(END)\<newline>@END'') [] =
      replicate n ''0'' @ [''(END)'', ''@END'']"
    by (simp only: rawLines_zeros)
  moreover have "takeWhile (\<lambda>l. length l < MaxScanTokenSize) (replicate n ''0'' @ [''(END)'', ''@END''])
      = replicate n ''0'' @ [''(END)'', ''@END'']"
    by (simp add: MaxScanTokenSize_def takeWhile_append2)
  moreover have "map dropCR (replicate n ''0'' @ [''(END)'', ''@END''])
      = replicate n ''0'' @ [''(END)'', ''@END'']"
    by (simp add: dropCR_def)
  ultimately show ?thesis
    by (simp only: Scan_def)
qed

lemma trim_long:
  "TrimSpace ''0'' = ''0''" "TrimSpace ''(END)'' = ''(END)''" "TrimSpace ''@END'' = ''@END''"
  by (simp_all add: trim_eval)

lemma parseC_zero: "parseCInstruction ''0'' = Inr \<lparr>Dest = [], Comp = ''0'', Jump = []\<rparr>"
  by (simp add: parseCInstruction_def trim_long trim_add)

lemma parseLines_zero:
  "parseLines ut (''0'' # ls) acc =
     parseLines ut ls (acc @ [CIns \<lparr>Dest = [], Comp = ''0'', Jump = []\<rparr>])"
  by (simp add: trim_long parseC_zero)

lemma parseLines_zeros:
  "parseLines ut (replicate n ''0'' @ ls) acc =
     parseLines ut ls (acc @ replicate n (CIns \<lparr>Dest = [], Comp = ''0'', Jump = []\<rparr>))"
proof (induction n arbitrary: acc)
  case 0
  show ?case by simp
next
  case (Suc n)
  have "parseLines ut (replicate (Suc n) ''0'' @ ls) acc =
      parseLines ut (replicate n ''0'' @ ls) (acc @ [CIns \<lparr>Dest = [], Comp = ''0'', Jump = []\<rparr>])"
    by (simp only: replicate_Suc append_Cons parseLines_zero)
  also have "\<dots> = parseLines ut ls
      ((acc @ [CIns \<lparr>Dest = [], Comp = ''0'', Jump = []\<rparr>])
         @ replicate n (CIns \<lparr>Dest = [], Comp = ''0'', Jump = []\<rparr>))"
    by (rule Suc.IH)
  finally show ?case by simp
qed

lemma containsOnly_END: "containsOnly ''END'' (validSymbolChars ut)"
  by (simp add: containsOnly.simps validSymbolChars_def IsLetter_def byte_def)

lemma parseLabel_END: "parseLabel ut ''(END)'' = Inr \<lparr>label.Literal = ''END''\<rparr>"
  by (simp add: parseLabel_def Trim_def containsOnly_END)

lemma parseA_END:
  "parseAInstruction ut ''@END'' = Inr \<lparr>Literal = ''END'', IsSymbol = True, Value = 0\<rparr>"
  by (simp add: parseAInstruction_def IsDigit_def byte_def containsOnly_END)

lemma parse_long:
  "parse ut (concat (replicate n ''0\<newline>'') @ ''(END)\<newline>@END'') = Inr (longProgram n)"
  unfolding parse_def scan_long parseLines_zeros
  by (simp add: trim_long parseLabel_END parseA_END longProgram_def)

lemma symbolsUsed_append: "symbolsUsed (xs @ ys) = symbolsUsed xs @ symbolsUsed ys"
  by (induction xs rule: symbolsUsed.induct) auto

lemma labelsDeclared_many: "labelsDeclared (manyVariables n) = []"
  by (induction n) (simp_all add: labelsDeclared_append)

lemma no_CIns_many: "CIns c \<notin> set (manyVariables n)"
  by (induction n) simp_all

lemma symbolsUsed_many:
  "symbolsUsed (manyVariables n) = map (\<lambda>i. CHR ''v'' # binaryDigits i) [0..<n]"
  by (induction n) (simp_all add: symbolsUsed_append)

lemma v_not_predefined: "CHR ''v'' # ds \<notin> dom predefinedSymbols"
  by (simp add: predefinedSymbols_def predefinedEntries_def dom_map_of_conv_image_fst)

lemma binaryDigits_inj: "binaryDigits i = binaryDigits j \<Longrightarrow> i = j"
  by (metis binaryValue_binaryDigits)

lemma distinct_names: "distinct (map (\<lambda>i. CHR ''v'' # binaryDigits i) [0..<n])"
  by (auto simp: distinct_map inj_on_def dest: binaryDigits_inj)

lemma firsts_distinct: "distinct xs \<Longrightarrow> firsts xs = xs"
proof (induction xs)
  case Nil
  show ?case by simp
next
  case (Cons x xs)
  then have "filter (\<lambda>y. y \<noteq> x) xs = xs"
    by (auto intro: filter_True)
  with Cons show ?case by simp
qed

lemma variables_many:
  "variables (manyVariables n) = map (\<lambda>i. CHR ''v'' # binaryDigits i) [0..<n]"
proof -
  have "filter (\<lambda>s. s \<notin> dom predefinedSymbols \<and> s \<notin> set (labelsDeclared (manyVariables n)))
          (symbolsUsed (manyVariables n)) = symbolsUsed (manyVariables n)"
    by (rule filter_True) (auto simp: symbolsUsed_many labelsDeclared_many v_not_predefined)
  then show ?thesis
    by (simp add: variables_def symbolsUsed_many firsts_distinct distinct_names)
qed

lemma many_run: "fst (code predefinedEntries bufferWrite (manyVariables n) out) = None"
  by (simp add: code_buffer_succeeds labelsDeclared_many no_CIns_many)

lemma many_table:
  assumes "j < n"
  shows "finalSymbolTable predefinedEntries bufferWrite (manyVariables n) out
           (CHR ''v'' # binaryDigits j) = Some (16 + of_nat j)"
proof -
  from many_run [of n out] obtain out' where
    run: "code predefinedEntries bufferWrite (manyVariables n) out = (None, out')"
    by (cases "code predefinedEntries bufferWrite (manyVariables n) out") auto
  from successful_run_facts [OF refl run] have
    "\<forall>j < length (variables (manyVariables n)).
       finalSymbolTable predefinedEntries bufferWrite (manyVariables n) out
         (variables (manyVariables n) ! j) = Some (16 + of_nat j)"
    by blast
  with assms show ?thesis
    by (simp add: variables_many)
qed

subsection \<open>The source text of many variables\<close>

lemma rawLines_line:
  "CHR 0x0A \<notin> set l \<Longrightarrow> rawLines (l @ CHR 0x0A # rest) cur = (cur @ l) # rawLines rest []"
  by (induction l arbitrary: cur) auto

lemma binaryDigits_no_char:
  "c \<noteq> CHR ''0'' \<Longrightarrow> c \<noteq> CHR ''1'' \<Longrightarrow> c \<notin> set (binaryDigits u)"
  using binaryDigits_chars [of u] by auto

lemma binaryDigits_not_Nil: "binaryDigits u \<noteq> []"
  by (subst binaryDigits.simps) simp

lemma rawLines_many:
  "rawLines (manyLines n @ rest) [] =
     map (\<lambda>i. ''@v'' @ binaryDigits i) [0..<n] @ rawLines rest []"
proof (induction n arbitrary: rest)
  case 0
  show ?case by simp
next
  case (Suc n)
  have "rawLines ((''@v'' @ binaryDigits n) @ CHR 0x0A # rest) [] =
      ([] @ ''@v'' @ binaryDigits n) # rawLines rest []"
    by (rule rawLines_line) (simp add: binaryDigits_no_char)
  then have "rawLines (''@v'' @ binaryDigits n @ ''\<newline>'' @ rest) [] =
      (''@v'' @ binaryDigits n) # rawLines rest []"
    by simp
  with Suc [of "''@v'' @ binaryDigits n @ ''\<newline>'' @ rest"] show ?case
    by simp
qed

lemma last_binaryDigits: "last (binaryDigits u) = CHR ''0'' \<or> last (binaryDigits u) = CHR ''1''"
proof -
  have "last (binaryDigits u) \<in> set (binaryDigits u)"
    by (rule last_in_set) (rule binaryDigits_not_Nil)
  with binaryDigits_chars [of u] show ?thesis
    by blast
qed

lemma dropCR_many: "dropCR (''@v'' @ binaryDigits i) = ''@v'' @ binaryDigits i"
  using last_binaryDigits [of i] by (auto simp: dropCR_def binaryDigits_not_Nil)

lemma scan_many:
  assumes "n \<le> 65536"
  shows "Scan (manyLines n) = map (\<lambda>i. ''@v'' @ binaryDigits i) [0..<n]"
proof -
  have raw: "rawLines (manyLines n) [] = map (\<lambda>i. ''@v'' @ binaryDigits i) [0..<n]"
    using rawLines_many [of n "[]"] by simp
  have short: "length (''@v'' @ binaryDigits i) < MaxScanTokenSize" if "i < n" for i
  proof -
    from that assms have "i < 2 ^ 16" by simp
    then have "length (binaryDigits i) \<le> 16"
      by (rule length_binaryDigits_le) simp
    then show ?thesis by (simp add: MaxScanTokenSize_def)
  qed
  then have "takeWhile (\<lambda>l. length l < MaxScanTokenSize)
      (map (\<lambda>i. ''@v'' @ binaryDigits i) [0..<n]) = map (\<lambda>i. ''@v'' @ binaryDigits i) [0..<n]"
    by (intro takeWhile_eq_all_conv [THEN iffD2]) auto
  moreover have "map dropCR (map (\<lambda>i. ''@v'' @ binaryDigits i) [0..<n])
      = map (\<lambda>i. ''@v'' @ binaryDigits i) [0..<n]"
    by (simp add: dropCR_many del: append.simps)
  ultimately show ?thesis
    by (simp only: Scan_def raw)
qed

lemma Cut_no_slash: "CHR ''/'' \<notin> set s \<Longrightarrow> Cut s ''//'' = (s, [], False)"
  by (induction s) auto

lemma trimLeftSpace_at: "trimLeftSpace (CHR ''@'' # s) = CHR ''@'' # s"
proof -
  have "find (\<lambda>e. prefix e (64 # map byte (take 2 s))) whiteSpace = None"
    by (simp add: whiteSpace_def)
  then have "spaceWidth (map byte (take 3 (CHR ''@'' # s))) = 0"
    by (simp add: spaceWidth_def byte_def)
  then show ?thesis
    by (subst trimLeftSpace.simps) simp
qed

lemma spaceWidthEnd_digit:
  "spaceWidthEnd (bs @ [48]) = 0" "spaceWidthEnd (bs @ [49]) = 0"
  by (simp_all add: spaceWidthEnd_def whiteSpace_def)

lemma trimRightSpace_digit:
  assumes "c = CHR ''0'' \<or> c = CHR ''1''"
  shows "trimRightSpace (s @ [c]) = s @ [c]"
proof -
  have "drop (length (s @ [c]) - 3) (s @ [c]) = drop (length s - 2) s @ [c]"
    by simp
  then have "map byte (drop (length (s @ [c]) - 3) (s @ [c]))
      = map byte (drop (length s - 2) s) @ [byte c]"
    by simp
  moreover from assms have "byte c = 48 \<or> byte c = 49"
    by (auto simp: byte_def)
  ultimately have "spaceWidthEnd (map byte (drop (length (s @ [c]) - 3) (s @ [c]))) = 0"
    using spaceWidthEnd_digit by metis
  then show ?thesis
    by (subst trimRightSpace.simps) (simp add: Let_def)
qed

lemma TrimSpace_many: "TrimSpace (''@v'' @ binaryDigits i) = ''@v'' @ binaryDigits i"
proof -
  obtain s c where sc: "binaryDigits i = s @ [c]" "c = CHR ''0'' \<or> c = CHR ''1''"
    using last_binaryDigits [of i] binaryDigits_not_Nil [of i]
    by (metis append_butlast_last_id)
  have "trimRightSpace ((''@v'' @ s) @ [c]) = (''@v'' @ s) @ [c]"
    using sc(2) by (rule trimRightSpace_digit)
  with sc(1) show ?thesis
    by (simp add: TrimSpace_def trimLeftSpace_at)
qed

lemma containsOnly_ascii:
  "(\<forall>c \<in> set s. byte c < 0x80 \<and> f (byte c)) \<Longrightarrow> containsOnly s f"
proof (induction s)
  case Nil
  show ?case by (simp add: containsOnly.simps)
next
  case (Cons c cs)
  then show ?case
    by (subst containsOnly.simps) simp
qed

lemma containsOnly_many: "containsOnly (CHR ''v'' # binaryDigits i) (validSymbolChars ut)"
proof (rule containsOnly_ascii, rule ballI)
  fix c assume "c \<in> set (CHR ''v'' # binaryDigits i)"
  with binaryDigits_chars [of i] have "c = CHR ''v'' \<or> c = CHR ''0'' \<or> c = CHR ''1''"
    by auto
  then show "byte c < 0x80 \<and> validSymbolChars ut (byte c)"
    by (auto simp: validSymbolChars_def IsLetter_def IsDigit_def byte_def)
qed

lemma parseA_many:
  "parseAInstruction ut (''@v'' @ binaryDigits i) =
     Inr \<lparr>Literal = CHR ''v'' # binaryDigits i, IsSymbol = True, Value = 0\<rparr>"
  using containsOnly_many [of i ut]
  by (simp add: parseAInstruction_def IsDigit_def byte_def)

lemma parseLines_many_line:
  "parseLines ut ((''@v'' @ binaryDigits i) # ls) acc =
     parseLines ut ls
       (acc @ [AIns \<lparr>Literal = CHR ''v'' # binaryDigits i, IsSymbol = True, Value = 0\<rparr>])"
proof -
  have "Cut (''@v'' @ binaryDigits i) ''//'' = (''@v'' @ binaryDigits i, [], False)"
    by (rule Cut_no_slash) (simp add: binaryDigits_no_char)
  then show ?thesis
    by (simp only: parseLines.simps prod.case Let_def TrimSpace_many parseA_many) simp
qed

lemma parseLines_many:
  "parseLines ut (map (\<lambda>i. ''@v'' @ binaryDigits i) [m..<m + n]) acc =
     Inr (acc @ map (\<lambda>i. AIns \<lparr>Literal = CHR ''v'' # binaryDigits i, IsSymbol = True,
                               Value = 0\<rparr>) [m..<m + n])"
proof (induction n arbitrary: m acc)
  case 0
  show ?case by simp
next
  case (Suc n)
  have "[m..<m + Suc n] = m # [Suc m..<Suc m + n]"
    by (simp add: upt_conv_Cons)
  then show ?case
    using Suc [of "Suc m"] by (simp only: list.map parseLines_many_line) simp
qed

lemma manyVariables_map:
  "manyVariables n = map (\<lambda>i. AIns \<lparr>Literal = CHR ''v'' # binaryDigits i, IsSymbol = True,
                                      Value = 0\<rparr>) [0..<n]"
  by (induction n) simp_all

lemma parse_many: "n \<le> 65536 \<Longrightarrow> parse ut (manyLines n) = Inr (manyVariables n)"
  using parseLines_many [of ut 0 n "[]"]
  by (simp add: parse_def scan_many manyVariables_map)

lemma many_output:
  "\<exists>pre. code predefinedEntries bufferWrite (manyVariables 65521) [] =
     (None, pre @ ''1111111111111111\<newline>0000000000000000\<newline>'')"
proof -
  define \<sigma> where "\<sigma> = finalSymbolTable predefinedEntries bufferWrite (manyVariables 65521) []"
  from many_run [of 65521 "[]"] obtain out' where
    run: "code predefinedEntries bufferWrite (manyVariables 65521) [] = (None, out')"
    by (cases "code predefinedEntries bufferWrite (manyVariables 65521) []") auto
  from successful_run_facts [OF refl run] have
    out: "out' = concat (map (lineOf \<sigma>) (manyVariables 65521))"
    by (auto simp: \<sigma>_def)
  have split: "manyVariables 65521 = manyVariables 65519 @
      [AIns \<lparr>Literal = CHR ''v'' # binaryDigits 65519, IsSymbol = True, Value = 0\<rparr>,
       AIns \<lparr>Literal = CHR ''v'' # binaryDigits 65520, IsSymbol = True, Value = 0\<rparr>]"
  proof -
    have n: "Suc 65519 = 65520" "Suc 65520 = 65521" by simp_all
    from manyVariables.simps(2) [of 65520] manyVariables.simps(2) [of 65519]
    show ?thesis unfolding n by simp
  qed
  have f: "fmt016b 65535 = ''1111111111111111''" "fmt016b 0 = ''0000000000000000''"
    by (rule fmt016b_eq; simp add: binaryValue_def)+
  have a: "\<sigma> (CHR ''v'' # binaryDigits 65519) = Some 65535"
    using many_table [of 65519 65521 "[]"] by (simp add: \<sigma>_def)
  have b: "\<sigma> (CHR ''v'' # binaryDigits 65520) = Some 0"
    using many_table [of 65520 65521 "[]"] by (simp add: \<sigma>_def)
  have "out' = concat (map (lineOf \<sigma>) (manyVariables 65519))
      @ ''1111111111111111\<newline>0000000000000000\<newline>''"
    unfolding out split by (simp add: resolvedValue_def a b f del: binaryDigits.simps)
  with run show ?thesis by blast
qed

lemma fmt_example:
  "fmt016b 16 = ''0000000000010000''" "fmt016b 17 = ''0000000000010001''"
  "fmt016b 1 = ''0000000000000001''" "fmt016b 5 = ''0000000000000101''"
  by (rule fmt016b_eq; simp add: binaryValue_def)+

lemma example_labels: "codeLabels exampleProgram 0 Map.empty = Inr [''LOOP'' \<mapsto> 1]"
  by (simp add: exampleProgram_def predefinedSymbols_def predefinedEntries_def)

lemma example_lookups:
  "predefinedSymbols ''i'' = None" "predefinedSymbols ''LOOP'' = None"
  "predefinedSymbols ''sum'' = None" "predefinedSymbols ''R1'' = Some 1"
  by (simp_all add: predefinedSymbols_def predefinedEntries_def)

lemma example_run:
  "code predefinedEntries bufferWrite exampleProgram [] =
     (None, ''0000000000010000\<newline>0000000000000001\<newline>0000000000000001\<newline>0000000000000101\<newline>0000000000010001\<newline>0000000000010000\<newline>1110110000010000\<newline>'')"
  unfolding code_def example_labels rangeStore_any_order [OF refl]
  by (simp add: exampleProgram_def codeEmit_buffer_A codeEmit_buffer_C resolve_table resolve_next
      resolvedValue_def map_add_def example_lookups fmt_example codeC_add
      del: codeEmit.simps(2,3))

lemma example_label_facts:
  "distinct (labelsDeclared exampleProgram)"
  "set (labelsDeclared exampleProgram) \<inter> dom predefinedSymbols = {}"
  "labelsDeclared exampleProgram = [''LOOP'']"
  "exampleProgram ! 1 = LabelIns \<lparr>label.Literal = ''LOOP''\<rparr>"
  "instructionsBefore exampleProgram 1 = 1"
  "length exampleProgram = 8"
  by (simp_all add: exampleProgram_def instructionsBefore_def domIff example_lookups)

lemma example_variables: "variables exampleProgram = [''i'', ''sum'']"
  by (simp add: variables_def example_label_facts(3))
    (simp add: exampleProgram_def domIff example_lookups)

lemma scan_example:
  "Scan ''@i\<newline>(LOOP)\<newline>@LOOP\<newline>@R1\<newline>@5\<newline>@sum\<newline>@i\<newline>D=A'' =
     [''@i'', ''(LOOP)'', ''@LOOP'', ''@R1'', ''@5'', ''@sum'', ''@i'', ''D=A'']"
  unfolding Scan_def
  apply simp
  apply (simp add: MaxScanTokenSize_def)
  apply (simp add: dropCR_def)
  done

lemma trim_example:
  "TrimSpace ''@i'' = ''@i''" "TrimSpace ''(LOOP)'' = ''(LOOP)''" "TrimSpace ''@LOOP'' = ''@LOOP''"
  "TrimSpace ''@R1'' = ''@R1''" "TrimSpace ''@5'' = ''@5''" "TrimSpace ''@sum'' = ''@sum''"
  by (simp_all add: trim_eval)

lemma containsOnly_example:
  "containsOnly ''i'' (validSymbolChars ut)" "containsOnly ''LOOP'' (validSymbolChars ut)"
  "containsOnly ''R1'' (validSymbolChars ut)" "containsOnly ''sum'' (validSymbolChars ut)"
  by (simp_all add: containsOnly.simps validSymbolChars_def IsLetter_def IsDigit_def byte_def)

lemma parse_example_lines:
  "parseAInstruction ut ''@i'' = Inr \<lparr>Literal = ''i'', IsSymbol = True, Value = 0\<rparr>"
  "parseLabel ut ''(LOOP)'' = Inr \<lparr>label.Literal = ''LOOP''\<rparr>"
  "parseAInstruction ut ''@LOOP'' = Inr \<lparr>Literal = ''LOOP'', IsSymbol = True, Value = 0\<rparr>"
  "parseAInstruction ut ''@R1'' = Inr \<lparr>Literal = ''R1'', IsSymbol = True, Value = 0\<rparr>"
  "parseAInstruction ut ''@5'' = Inr \<lparr>Literal = ''5'', IsSymbol = False, Value = 5\<rparr>"
  "parseAInstruction ut ''@sum'' = Inr \<lparr>Literal = ''sum'', IsSymbol = True, Value = 0\<rparr>"
  by (simp_all add: parseAInstruction_def parseLabel_def Trim_def IsDigit_def byte_def
      ParseUint10_def maxUint64_def containsOnly_example)

lemma parse_example:
  "parse ut ''@i\<newline>(LOOP)\<newline>@LOOP\<newline>@R1\<newline>@5\<newline>@sum\<newline>@i\<newline>D=A'' = Inr exampleProgram"
  unfolding parse_def scan_example
  by (simp add: trim_example trim_add parse_example_lines parseC_add exampleProgram_def)

subsection \<open>A symbol before an unknown mnemonic, and a writer that fails\<close>

lemma scan_x: "Scan ''@x\<newline>FOO'' = [''@x'', ''FOO'']"
  unfolding Scan_def
  apply simp
  apply (simp add: MaxScanTokenSize_def)
  apply (simp add: dropCR_def)
  done

lemma trim_x: "TrimSpace ''@x'' = ''@x''"
  by (simp add: trim_eval)

lemma parseA_x:
  "parseAInstruction ut ''@x'' = Inr \<lparr>Literal = ''x'', IsSymbol = True, Value = 0\<rparr>"
  by (simp add: parseAInstruction_def IsDigit_def byte_def containsOnly.simps
      validSymbolChars_def IsLetter_def)

lemma parse_x:
  "parse ut ''@x\<newline>FOO'' =
     Inr [AIns \<lparr>Literal = ''x'', IsSymbol = True, Value = 0\<rparr>,
          CIns \<lparr>Dest = [], Comp = ''FOO'', Jump = []\<rparr>]"
  unfolding parse_def scan_x
  by (simp add: trim_x trim_foo parseA_x parseC_foo)

lemma x_not_predefined: "predefinedSymbols ''x'' = None"
  by (simp add: predefinedSymbols_def predefinedEntries_def)

lemma assemble_x:
  "Assemble ut predefinedEntries bufferWrite ''@x\<newline>FOO'' [] =
     (Some (UnknownMnemonicError ABit ''FOO''), ''0000000000010000\<newline>'')"
proof -
  have "rangeStore predefinedEntries Map.empty = Map.empty ++ predefinedSymbols"
    by (rule rangeStore_any_order) simp
  then show ?thesis
    unfolding Assemble_def parse_x
    by (simp add: code_def codeEmit_buffer_A codeEmit_buffer_C resolve_def resolvedValue_def
        x_not_predefined fmt_example codeC_foo del: codeEmit.simps(2,3))
qed

lemma final_x:
  "finalSymbolTable predefinedEntries bufferWrite
     [AIns \<lparr>Literal = ''x'', IsSymbol = True, Value = 0\<rparr>,
      CIns \<lparr>Dest = [], Comp = ''FOO'', Jump = []\<rparr>] [] ''x'' = Some 16"
proof -
  have "rangeStore predefinedEntries Map.empty = Map.empty ++ predefinedSymbols"
    by (rule rangeStore_any_order) simp
  then show ?thesis
    by (simp add: finalSymbolTable_def codeEmit_buffer_A codeEmit_buffer_C resolve_def
        x_not_predefined codeC_foo del: codeEmit.simps(2,3))
qed

lemma assemble_closed:
  "Assemble ut order (\<lambda>s p. (s, 0, True)) ''@2\<newline>FOO'' [] =
     (Some (WriteError (ShortWrite 0)), [])"
  unfolding Assemble_def parse_foo
  by (simp add: code_def Fprintf_def resolve_def)

subsection \<open>A line that starts with an Arabic-Indic digit\<close>

lemma decode_three: "DecodeRuneInString [CHR 0xD9, CHR 0xA3] = (0x663, 2)"
  by (simp add: byte_def Let_def)

lemma digit_three: "IsDigit arabicIndicDigits 0x663"
  "\<not> IsDigit ut (byte (CHR 0xD9))"
  by (simp_all add: IsDigit_def arabicIndicDigits_def byte_def)

lemma containsOnly_three:
  "containsOnly [CHR 0xD9, CHR 0xA3] (validSymbolChars arabicIndicDigits)"
  by (simp add: containsOnly.simps decode_three validSymbolChars_def digit_three
      del: DecodeRuneInString.simps)

lemma parseA_three:
  "parseAInstruction arabicIndicDigits [CHR ''@'', CHR 0xD9, CHR 0xA3] =
     Inr \<lparr>Literal = [CHR 0xD9, CHR 0xA3], IsSymbol = True, Value = 0\<rparr>"
  by (simp add: parseAInstruction_def digit_three containsOnly_three)

lemma parseA_three_any:
  "parseAInstruction ut [CHR ''@'', CHR 0xD9, CHR 0xA3] =
     (if validSymbolChars ut 0x663
      then Inr \<lparr>Literal = [CHR 0xD9, CHR 0xA3], IsSymbol = True, Value = 0\<rparr>
      else Inl (ParseError IllegalCharacter))"
  by (simp add: parseAInstruction_def digit_three(2) containsOnly.simps decode_three
      del: DecodeRuneInString.simps)

lemma scan_three: "Scan [CHR ''@'', CHR 0xD9, CHR 0xA3] = [[CHR ''@'', CHR 0xD9, CHR 0xA3]]"
  unfolding Scan_def
  apply simp
  apply (simp add: MaxScanTokenSize_def)
  apply (simp add: dropCR_def)
  done

lemma trim_three:
  "TrimSpace [CHR ''@'', CHR 0xD9, CHR 0xA3] = [CHR ''@'', CHR 0xD9, CHR 0xA3]"
  by (simp add: trim_eval)

lemma parse_three:
  "parse arabicIndicDigits [CHR ''@'', CHR 0xD9, CHR 0xA3] =
     Inr [AIns \<lparr>Literal = [CHR 0xD9, CHR 0xA3], IsSymbol = True, Value = 0\<rparr>]"
  unfolding parse_def scan_three
  by (simp add: trim_three parseA_three)

lemma three_not_predefined: "predefinedSymbols [CHR 0xD9, CHR 0xA3] = None"
  by (simp add: predefinedSymbols_def predefinedEntries_def)

lemma assemble_three:
  "Assemble arabicIndicDigits predefinedEntries bufferWrite [CHR ''@'', CHR 0xD9, CHR 0xA3] [] =
     (None, ''0000000000010000\<newline>'')"
proof -
  have "rangeStore predefinedEntries Map.empty = Map.empty ++ predefinedSymbols"
    by (rule rangeStore_any_order) simp
  then show ?thesis
    unfolding Assemble_def parse_three
    by (simp add: code_def codeEmit_buffer_A resolve_def resolvedValue_def
        three_not_predefined fmt_example del: codeEmit.simps(2,3))
qed

section \<open>The properties\<close>

text \<open>
  C1 says that a line with neither \<open>=\<close> nor \<open>;\<close>, or with an empty comp field, is
  rejected with a parse error. \<open>parseCInstruction\<close> has no failing branch (its check is a
  TODO): the line \<open>D\<close> and the line \<open>=;\<close> both parse, and assembling the line \<open>D\<close>
  succeeds and writes an instruction.
\<close>

theorem parseCInstruction_accepts_malformed:
  "parseCInstruction ''D'' = Inr \<lparr>Dest = [], Comp = ''D'', Jump = []\<rparr>
   \<and> parseCInstruction ''=;'' = Inr \<lparr>Dest = [], Comp = [], Jump = []\<rparr>
   \<and> Assemble ut order bufferWrite ''D'' [] = (None, ''1110001100000000\<newline>'')"
  by (simp add: parseC_bare Assemble_def parse_def scan_bare trim_bare code_def
      codeEmit_buffer_C codeC_bare del: codeEmit.simps(3))

text \<open>
  C2, as the code has it. A run that fails with a parse error, a duplicate label or a
  reserved label has written nothing, whatever the writer. Every other failure comes from the
  encoding loop, which writes each line as soon as it is encoded. On a buffer it can only be
  an unknown mnemonic at some C-instruction, the first one that cannot be encoded, and then
  the buffer holds exactly the whole lines of the instructions before it, under the symbol
  table \<open>code\<close> has built when it returns. With any writer the failure is that or a failed
  write, one that did not report 17 bytes and no error: the lines of the instructions before
  the failing one have been handed to the writer, whole and in order, each of these writes
  reported 17 bytes and no error, and after a failed write also the line of the failing
  instruction itself has been handed to the writer.
\<close>

theorem failed_run_output:
  "(Assemble ut order wr r out = (Some e, out') \<longrightarrow>
      ((\<exists>f. e = ParseError f) \<or> (\<exists>l. e = DuplicateLabelError l)
         \<or> (\<exists>l. e = ReservedSymbolError l)) \<longrightarrow> out' = out)
   \<and> (Assemble ut order bufferWrite r buf = (Some e, buf') \<longrightarrow>
      ((\<exists>f. e = ParseError f) \<or> (\<exists>l. e = DuplicateLabelError l)
         \<or> (\<exists>l. e = ReservedSymbolError l)) \<and> buf' = buf
      \<or> (\<exists>f m instructions pre c rest.
            e = UnknownMnemonicError f m \<and> parse ut r = Inr instructions
            \<and> instructions = pre @ CIns c # rest \<and> codeCInstruction c = Inl e
            \<and> (\<forall>c'. CIns c' \<in> set pre \<longrightarrow> (\<exists>s. codeCInstruction c' = Inr s))
            \<and> (\<forall>i \<in> set pre.
                  length (lineOf (finalSymbolTable order bufferWrite instructions buf) i)
                    = (if isLabel i then 0 else 17))
            \<and> buf' = buf @ concat (map (lineOf (finalSymbolTable order bufferWrite
                                                  instructions buf)) pre)))
   \<and> (Assemble ut order wr r out = (Some e, out') \<longrightarrow>
      \<not> ((\<exists>f. e = ParseError f) \<or> (\<exists>l. e = DuplicateLabelError l)
         \<or> (\<exists>l. e = ReservedSymbolError l)) \<longrightarrow>
      (\<exists>instructions pre i rest.
          parse ut r = Inr instructions \<and> instructions = pre @ i # rest
          \<and> (\<forall>c'. CIns c' \<in> set pre \<longrightarrow> (\<exists>s. codeCInstruction c' = Inr s))
          \<and> (\<forall>l \<in> set (linesOf (finalSymbolTable order wr instructions out) pre). length l = 17)
          \<and> writesOk wr out (linesOf (finalSymbolTable order wr instructions out) pre)
          \<and> ((\<exists>f m c. e = UnknownMnemonicError f m \<and> i = CIns c \<and> codeCInstruction c = Inl e
                \<and> out' = writeLines wr out
                     (linesOf (finalSymbolTable order wr instructions out) pre))
             \<or> (\<not> isLabel i
                \<and> length (lineOf (finalSymbolTable order wr instructions out) i) = 17
                \<and> \<not> writeOk wr
                      (writeLines wr out (linesOf (finalSymbolTable order wr instructions out) pre))
                      (lineOf (finalSymbolTable order wr instructions out) i)
                \<and> e = WriteError
                      (writeFaultOf wr
                         (writeLines wr out
                            (linesOf (finalSymbolTable order wr instructions out) pre))
                         (lineOf (finalSymbolTable order wr instructions out) i))
                \<and> out' = writeLines wr out
                     (linesOf (finalSymbolTable order wr instructions out) (pre @ [i]))))))"
proof (intro conjI impI)
  assume run: "Assemble ut order wr r out = (Some e, out')"
    and early: "(\<exists>f. e = ParseError f) \<or> (\<exists>l. e = DuplicateLabelError l)
         \<or> (\<exists>l. e = ReservedSymbolError l)"
  show "out' = out"
  proof (cases "parse ut r")
    case (Inl err)
    with run show ?thesis by (simp add: Assemble_def)
  next
    case (Inr instructions)
    with run have c: "code order wr instructions out = (Some e, out')"
      by (simp add: Assemble_def)
    from code_errors [OF c] early have
      "(\<exists>l. e = DuplicateLabelError l) \<or> (\<exists>l. e = ReservedSymbolError l)"
      by auto
    with c show ?thesis by (rule code_early_errors)
  qed
next
  assume run: "Assemble ut order bufferWrite r buf = (Some e, buf')"
  show "((\<exists>f. e = ParseError f) \<or> (\<exists>l. e = DuplicateLabelError l)
         \<or> (\<exists>l. e = ReservedSymbolError l)) \<and> buf' = buf
      \<or> (\<exists>f m instructions pre c rest.
            e = UnknownMnemonicError f m \<and> parse ut r = Inr instructions
            \<and> instructions = pre @ CIns c # rest \<and> codeCInstruction c = Inl e
            \<and> (\<forall>c'. CIns c' \<in> set pre \<longrightarrow> (\<exists>s. codeCInstruction c' = Inr s))
            \<and> (\<forall>i \<in> set pre.
                  length (lineOf (finalSymbolTable order bufferWrite instructions buf) i)
                    = (if isLabel i then 0 else 17))
            \<and> buf' = buf @ concat (map (lineOf (finalSymbolTable order bufferWrite
                                                  instructions buf)) pre))"
  proof (cases "parse ut r")
    case (Inl err)
    with run have "err = e" "buf' = buf" by (simp_all add: Assemble_def)
    with Inl parseLines_errors [of ut "Scan r" "[]" e] show ?thesis
      by (auto simp: parse_def)
  next
    case (Inr instructions)
    with run have c: "code order bufferWrite instructions buf = (Some e, buf')"
      by (simp add: Assemble_def)
    show ?thesis
    proof (cases "(\<exists>l. e = DuplicateLabelError l) \<or> (\<exists>l. e = ReservedSymbolError l)")
      case True
      with code_early_errors [OF c] show ?thesis by blast
    next
      case False
      let ?\<sigma> = "finalSymbolTable order bufferWrite instructions buf"
      from code_buffer_failure [OF c False] obtain pre c0 rest where
        *: "instructions = pre @ CIns c0 # rest" "codeCInstruction c0 = Inl e"
        "\<forall>c'. CIns c' \<in> set pre \<longrightarrow> (\<exists>s. codeCInstruction c' = Inr s)"
        "buf' = buf @ concat (map (lineOf ?\<sigma>) pre)"
        by blast
      from codeCInstruction_errors [OF *(2)] obtain f m where "e = UnknownMnemonicError f m"
        by blast
      moreover from *(3) have
        "\<forall>i \<in> set pre. length (lineOf ?\<sigma> i) = (if isLabel i then 0 else 17)"
        by (intro ballI lineOf_whole) auto
      ultimately show ?thesis
        using * Inr by blast
    qed
  qed
next
  assume run: "Assemble ut order wr r out = (Some e, out')"
    and late: "\<not> ((\<exists>f. e = ParseError f) \<or> (\<exists>l. e = DuplicateLabelError l)
         \<or> (\<exists>l. e = ReservedSymbolError l))"
  show "\<exists>instructions pre i rest.
          parse ut r = Inr instructions \<and> instructions = pre @ i # rest
          \<and> (\<forall>c'. CIns c' \<in> set pre \<longrightarrow> (\<exists>s. codeCInstruction c' = Inr s))
          \<and> (\<forall>l \<in> set (linesOf (finalSymbolTable order wr instructions out) pre). length l = 17)
          \<and> writesOk wr out (linesOf (finalSymbolTable order wr instructions out) pre)
          \<and> ((\<exists>f m c. e = UnknownMnemonicError f m \<and> i = CIns c \<and> codeCInstruction c = Inl e
                \<and> out' = writeLines wr out
                     (linesOf (finalSymbolTable order wr instructions out) pre))
             \<or> (\<not> isLabel i
                \<and> length (lineOf (finalSymbolTable order wr instructions out) i) = 17
                \<and> \<not> writeOk wr
                      (writeLines wr out (linesOf (finalSymbolTable order wr instructions out) pre))
                      (lineOf (finalSymbolTable order wr instructions out) i)
                \<and> e = WriteError
                      (writeFaultOf wr
                         (writeLines wr out
                            (linesOf (finalSymbolTable order wr instructions out) pre))
                         (lineOf (finalSymbolTable order wr instructions out) i))
                \<and> out' = writeLines wr out
                     (linesOf (finalSymbolTable order wr instructions out) (pre @ [i]))))"
  proof (cases "parse ut r")
    case (Inl err)
    with run have "err = e" by (simp add: Assemble_def)
    with Inl parseLines_errors [of ut "Scan r" "[]" e] late show ?thesis
      by (auto simp: parse_def)
  next
    case (Inr instructions)
    let ?\<sigma> = "finalSymbolTable order wr instructions out"
    from Inr run have c: "code order wr instructions out = (Some e, out')"
      by (simp add: Assemble_def)
    from late have "\<not> ((\<exists>l. e = DuplicateLabelError l) \<or> (\<exists>l. e = ReservedSymbolError l))"
      by blast
    from code_stops [OF c this] obtain pre i rest where
      *: "instructions = pre @ i # rest"
      "\<forall>c'. CIns c' \<in> set pre \<longrightarrow> (\<exists>s. codeCInstruction c' = Inr s)"
      "writesOk wr out (linesOf ?\<sigma> pre)"
      "(\<exists>c. i = CIns c \<and> codeCInstruction c = Inl e
               \<and> out' = writeLines wr out (linesOf ?\<sigma> pre))
           \<or> (\<not> isLabel i \<and> (\<forall>c. i = CIns c \<longrightarrow> (\<exists>s. codeCInstruction c = Inr s))
               \<and> \<not> writeOk wr (writeLines wr out (linesOf ?\<sigma> pre)) (lineOf ?\<sigma> i)
               \<and> e = WriteError
                     (writeFaultOf wr (writeLines wr out (linesOf ?\<sigma> pre)) (lineOf ?\<sigma> i))
               \<and> out' = writeLines wr out (linesOf ?\<sigma> (pre @ [i])))"
      by blast
    from *(2) have whole: "\<forall>l \<in> set (linesOf ?\<sigma> pre). length l = 17"
      by (rule linesOf_whole)
    from *(4) have "(\<exists>f m c. e = UnknownMnemonicError f m \<and> i = CIns c \<and> codeCInstruction c = Inl e
                \<and> out' = writeLines wr out (linesOf ?\<sigma> pre))
             \<or> (\<not> isLabel i \<and> length (lineOf ?\<sigma> i) = 17
                \<and> \<not> writeOk wr (writeLines wr out (linesOf ?\<sigma> pre)) (lineOf ?\<sigma> i)
                \<and> e = WriteError
                      (writeFaultOf wr (writeLines wr out (linesOf ?\<sigma> pre)) (lineOf ?\<sigma> i))
                \<and> out' = writeLines wr out (linesOf ?\<sigma> (pre @ [i])))"
    proof (elim disjE exE conjE)
      fix c assume c: "i = CIns c" "codeCInstruction c = Inl e"
        "out' = writeLines wr out (linesOf ?\<sigma> pre)"
      from codeCInstruction_errors [OF c(2)] obtain f m where "e = UnknownMnemonicError f m"
        by blast
      with c show ?thesis by blast
    next
      assume w: "\<not> isLabel i"
        "\<forall>c. i = CIns c \<longrightarrow> (\<exists>s. codeCInstruction c = Inr s)"
        "\<not> writeOk wr (writeLines wr out (linesOf ?\<sigma> pre)) (lineOf ?\<sigma> i)"
        "e = WriteError
              (writeFaultOf wr (writeLines wr out (linesOf ?\<sigma> pre)) (lineOf ?\<sigma> i))"
        "out' = writeLines wr out (linesOf ?\<sigma> (pre @ [i]))"
      from lineOf_whole [OF w(2), of ?\<sigma>] w(1) have "length (lineOf ?\<sigma> i) = 17"
        by simp
      with w show ?thesis by blast
    qed
    with Inr *(1,2,3) whole show ?thesis by blast
  qed
qed

text \<open>
  C2 as stated fails: assembling \<open>@2\<close> followed by the line \<open>FOO\<close> returns an
  unknown-mnemonic error after the line of \<open>@2\<close> has been written.
\<close>

theorem partial_output_counterexample:
  "Assemble \<lparr>Letter = \<lambda>r. False, Digit = \<lambda>r. False\<rparr> predefinedEntries bufferWrite
     ''@2\<newline>FOO'' [] =
     (Some (UnknownMnemonicError ABit ''FOO''), ''0000000000000010\<newline>'')"
  by (rule assemble_foo)

text \<open>
  The theorem at the inputs \<open>(R0)\<close> and \<open>@x\<close>, \<open>FOO\<close> with a buffer, where the line
  written holds the address 16 of the variable \<open>x\<close>, and at \<open>@2\<close>, \<open>FOO\<close> with a writer
  that writes nothing and reports an error.
\<close>

theorem failed_run_output_witness:
  "Assemble \<lparr>Letter = \<lambda>r. False, Digit = \<lambda>r. False\<rparr> predefinedEntries bufferWrite ''(R0)'' []
     = (Some (ReservedSymbolError ''R0''), [])
   \<and> Assemble \<lparr>Letter = \<lambda>r. False, Digit = \<lambda>r. False\<rparr> predefinedEntries bufferWrite
       ''@x\<newline>FOO'' []
     = (Some (UnknownMnemonicError ABit ''FOO''), ''0000000000010000\<newline>'')
   \<and> finalSymbolTable predefinedEntries bufferWrite
       [AIns \<lparr>Literal = ''x'', IsSymbol = True, Value = 0\<rparr>,
        CIns \<lparr>Dest = [], Comp = ''FOO'', Jump = []\<rparr>] [] ''x'' = Some 16
   \<and> (\<exists>instructions pre c rest.
         parse \<lparr>Letter = \<lambda>r. False, Digit = \<lambda>r. False\<rparr> ''@x\<newline>FOO'' = Inr instructions
         \<and> instructions = pre @ CIns c # rest
         \<and> codeCInstruction c = Inl (UnknownMnemonicError ABit ''FOO'')
         \<and> ''0000000000010000\<newline>'' =
             [] @ concat (map (lineOf (finalSymbolTable predefinedEntries bufferWrite
                                         instructions [])) pre))
   \<and> Assemble \<lparr>Letter = \<lambda>r. False, Digit = \<lambda>r. False\<rparr> predefinedEntries
       (\<lambda>(s::string) p. (s, 0, True)) ''@2\<newline>FOO'' []
     = (Some (WriteError (ShortWrite 0)), [])
   \<and> (\<exists>instructions pre i rest.
         parse \<lparr>Letter = \<lambda>r. False, Digit = \<lambda>r. False\<rparr> ''@2\<newline>FOO'' = Inr instructions
         \<and> instructions = pre @ i # rest
         \<and> [] = writeLines (\<lambda>(s::string) p. (s, 0, True)) []
                  (linesOf (finalSymbolTable predefinedEntries (\<lambda>(s::string) p. (s, 0, True))
                              instructions []) (pre @ [i])))"
proof -
  let ?ut = "\<lparr>Letter = \<lambda>r. False, Digit = \<lambda>r. False\<rparr>"
  let ?closed = "\<lambda>(s::string) (p::string). (s, 0::nat, True)"
  have a: "Assemble ?ut predefinedEntries bufferWrite ''(R0)'' []
     = (Some (ReservedSymbolError ''R0''), [])"
    by (rule assemble_R0)
  have b: "Assemble ?ut predefinedEntries bufferWrite ''@x\<newline>FOO'' []
     = (Some (UnknownMnemonicError ABit ''FOO''), ''0000000000010000\<newline>'')"
    by (rule assemble_x)
  have c: "Assemble ?ut predefinedEntries ?closed ''@2\<newline>FOO'' []
     = (Some (WriteError (ShortWrite 0)), [])"
    by (rule assemble_closed)
  from failed_run_output [of ?ut predefinedEntries bufferWrite "''@x\<newline>FOO''" "[]"
      "UnknownMnemonicError ABit ''FOO''" "''0000000000010000\<newline>''" "[]"
      "''0000000000010000\<newline>''"] b
  have d: "\<exists>instructions pre c rest.
         parse ?ut ''@x\<newline>FOO'' = Inr instructions
         \<and> instructions = pre @ CIns c # rest
         \<and> codeCInstruction c = Inl (UnknownMnemonicError ABit ''FOO'')
         \<and> ''0000000000010000\<newline>'' =
             [] @ concat (map (lineOf (finalSymbolTable predefinedEntries bufferWrite
                                         instructions [])) pre)"
    by auto
  from failed_run_output [of ?ut predefinedEntries ?closed "''@2\<newline>FOO''" "[]"
      "WriteError (ShortWrite 0)" "[]" "[]" "[]"] c
  have e: "\<exists>instructions pre i rest.
         parse ?ut ''@2\<newline>FOO'' = Inr instructions
         \<and> instructions = pre @ i # rest
         \<and> [] = writeLines ?closed []
                  (linesOf (finalSymbolTable predefinedEntries ?closed instructions [])
                     (pre @ [i]))"
    by auto
  show ?thesis by (intro conjI a b c d e final_x)
qed

text \<open>
  C3 says that a label declaration parses only if the text between the first and the last
  character is not empty and holds symbol characters only. \<open>parseLabel\<close> strips every
  leading and trailing parenthesis before it checks the characters: \<open>(()\<close> parses as
  the label with the empty name and \<open>((A))\<close> as the label \<open>A\<close>.
\<close>

theorem parseLabel_accepts_nested_parentheses:
  "parseLabel ut ''(()'' = Inr \<lparr>label.Literal = []\<rparr>
   \<and> parseLabel ut ''((A))'' = Inr \<lparr>label.Literal = ''A''\<rparr>
   \<and> parse ut ''(()'' = Inr [LabelIns \<lparr>label.Literal = []\<rparr>]"
  by (simp add: parseLabel_nested parse_def scan_bare trim_nested)

text \<open>
  C4, as the code has it. In a successful run the line of every A-instruction is the
  sixteen binary digits of its resolved value, a 16-bit value. The first digit is 0 exactly
  when that value is below 32768. That holds for every number the parser accepts and for
  every predefined symbol; for labels and variables it holds in every program of at most
  32752 instructions, and the code has no check that keeps their addresses below 32768 in a
  longer one.
\<close>

theorem address_lines:
  assumes "mset order = mset predefinedEntries"
    and "parse ut r = Inr ins"
    and "code order bufferWrite ins out = (None, out')"
  shows "out' = out @ concat (map (lineOf (finalSymbolTable order bufferWrite ins out)) ins)
     \<and> (\<forall>a. AIns a \<in> set ins \<longrightarrow>
          lineOf (finalSymbolTable order bufferWrite ins out) (AIns a)
            = fmt016b (resolvedValue (finalSymbolTable order bufferWrite ins out) a) @ [CHR 0x0A]
          \<and> length (fmt016b (resolvedValue (finalSymbolTable order bufferWrite ins out) a)) = 16
          \<and> set (fmt016b (resolvedValue (finalSymbolTable order bufferWrite ins out) a))
               \<subseteq> {CHR ''0'', CHR ''1''}
          \<and> binaryValue (fmt016b (resolvedValue (finalSymbolTable order bufferWrite ins out) a))
               = unat (resolvedValue (finalSymbolTable order bufferWrite ins out) a)
          \<and> (hd (fmt016b (resolvedValue (finalSymbolTable order bufferWrite ins out) a)) = CHR ''0'')
               = (unat (resolvedValue (finalSymbolTable order bufferWrite ins out) a) < 32768)
          \<and> (\<not> IsSymbol a \<or> Literal a \<in> dom predefinedSymbols \<or> length ins \<le> 32752 \<longrightarrow>
               unat (resolvedValue (finalSymbolTable order bufferWrite ins out) a) < 32768))"
proof -
  let ?\<sigma> = "finalSymbolTable order bufferWrite ins out"
  from successful_run_facts [OF assms(1,3)] have
    out: "out' = out @ concat (map (lineOf ?\<sigma>) ins)"
    by auto
  have "unat (resolvedValue ?\<sigma> a) < 32768"
    if a: "AIns a \<in> set ins"
      and c: "\<not> IsSymbol a \<or> Literal a \<in> dom predefinedSymbols \<or> length ins \<le> 32752" for a
  proof (cases "IsSymbol a")
    case False
    with parse_range [OF assms(2) a] show ?thesis
      by (simp add: resolvedValue_def)
  next
    case True
    from resolved_symbol [OF assms(1,3) a True] obtain v where
      v: "?\<sigma> (Literal a) = Some v"
      and cases: "predefinedSymbols (Literal a) = Some v
        \<or> (\<exists>i l. i < length ins \<and> ins ! i = LabelIns l \<and> label.Literal l = Literal a
              \<and> v = of_nat (instructionsBefore ins i))
        \<or> (\<exists>j < length (variables ins). variables ins ! j = Literal a \<and> v = 16 + of_nat j)"
      by blast
    have "unat v < 32768"
    proof (cases "Literal a \<in> dom predefinedSymbols")
      case True
      then obtain w where w: "predefinedSymbols (Literal a) = Some w" by auto
      from successful_run_facts [OF assms(1,3)] obtain st where
        "\<forall>k v. (st ++ predefinedSymbols) k = Some v \<longrightarrow> ?\<sigma> k = Some v"
        by blast
      moreover from w have "(st ++ predefinedSymbols) (Literal a) = Some w"
        by (simp add: map_add_def)
      ultimately have "?\<sigma> (Literal a) = Some w" by simp
      with v w predefined_small show ?thesis by auto
    next
      case False
      with c True have small: "length ins \<le> 32752" by simp
      from cases False consider
        (label) i where "i < length ins" "v = of_nat (instructionsBefore ins i)"
        | (var) j where "j < length (variables ins)" "v = 16 + of_nat j"
        by (auto simp: domIff)
      then show ?thesis
      proof cases
        case label
        have "instructionsBefore ins i \<le> i" by (rule instructionsBefore_le)
        with label small have "instructionsBefore ins i < 32768" by simp
        with label(2) show ?thesis
          by (simp add: unat_label_address)
      next
        case var
        from var(1) length_variables [of ins] small have "16 + j < 32768" by simp
        with var(2) show ?thesis
          by (simp add: unat_variable_address)
      qed
    qed
    with v True show ?thesis by (simp add: resolvedValue_def)
  qed
  with out show ?thesis
    by (simp add: length_fmt016b fmt016b_chars binaryValue_fmt016b hd_fmt016b)
qed

text \<open>
  C4 as stated fails: in the program of 32768 lines \<open>0\<close> followed by \<open>(END)\<close> and
  \<open>@END\<close> the run succeeds and the line of \<open>@END\<close> is \<open>1000000000000000\<close>.
\<close>

theorem address_top_bit_counterexample:
  "Assemble \<lparr>Letter = \<lambda>r. False, Digit = \<lambda>r. False\<rparr> predefinedEntries bufferWrite
     (concat (replicate 32768 ''0\<newline>'') @ ''(END)\<newline>@END'') [] =
     (None, concat (replicate 32768 ''1110101010000000\<newline>'') @ ''1000000000000000\<newline>'')"
proof -
  have f: "fmt016b (of_nat 32768) = ''1000000000000000''"
    by (rule fmt016b_eq) (simp_all add: binaryValue_def)
  from long_run [of 32768, unfolded f] show ?thesis
    by (simp add: Assemble_def parse_long)
qed

text \<open>The theorem at the example program and its instruction \<open>@sum\<close>.\<close>

theorem address_lines_witness:
  "mset predefinedEntries = mset predefinedEntries
   \<and> parse \<lparr>Letter = \<lambda>r. False, Digit = \<lambda>r. False\<rparr>
       ''@i\<newline>(LOOP)\<newline>@LOOP\<newline>@R1\<newline>@5\<newline>@sum\<newline>@i\<newline>D=A'' = Inr exampleProgram
   \<and> code predefinedEntries bufferWrite exampleProgram [] =
       (None, ''0000000000010000\<newline>0000000000000001\<newline>0000000000000001\<newline>0000000000000101\<newline>0000000000010001\<newline>0000000000010000\<newline>1110110000010000\<newline>'')
   \<and> AIns \<lparr>Literal = ''sum'', IsSymbol = True, Value = 0\<rparr> \<in> set exampleProgram
   \<and> length exampleProgram \<le> 32752
   \<and> length (fmt016b (resolvedValue (finalSymbolTable predefinedEntries bufferWrite exampleProgram [])
        \<lparr>Literal = ''sum'', IsSymbol = True, Value = 0\<rparr>)) = 16
   \<and> hd (fmt016b (resolvedValue (finalSymbolTable predefinedEntries bufferWrite exampleProgram [])
        \<lparr>Literal = ''sum'', IsSymbol = True, Value = 0\<rparr>)) = CHR ''0''
   \<and> unat (resolvedValue (finalSymbolTable predefinedEntries bufferWrite exampleProgram [])
        \<lparr>Literal = ''sum'', IsSymbol = True, Value = 0\<rparr>) < 32768"
proof -
  let ?\<sigma> = "finalSymbolTable predefinedEntries bufferWrite exampleProgram []"
  let ?a = "\<lparr>Literal = ''sum'', IsSymbol = True, Value = 0\<rparr>"
  have mem: "AIns ?a \<in> set exampleProgram"
    by (simp add: exampleProgram_def)
  have len: "length exampleProgram \<le> 32752"
    by (simp add: example_label_facts)
  from address_lines [OF refl
      parse_example [of "\<lparr>Letter = \<lambda>r. False, Digit = \<lambda>r. False\<rparr>"] example_run]
  have "\<forall>a. AIns a \<in> set exampleProgram \<longrightarrow>
          lineOf ?\<sigma> (AIns a) = fmt016b (resolvedValue ?\<sigma> a) @ [CHR 0x0A]
          \<and> length (fmt016b (resolvedValue ?\<sigma> a)) = 16
          \<and> set (fmt016b (resolvedValue ?\<sigma> a)) \<subseteq> {CHR ''0'', CHR ''1''}
          \<and> binaryValue (fmt016b (resolvedValue ?\<sigma> a)) = unat (resolvedValue ?\<sigma> a)
          \<and> (hd (fmt016b (resolvedValue ?\<sigma> a)) = CHR ''0'')
               = (unat (resolvedValue ?\<sigma> a) < 32768)
          \<and> (\<not> IsSymbol a \<or> Literal a \<in> dom predefinedSymbols \<or> length exampleProgram \<le> 32752
               \<longrightarrow> unat (resolvedValue ?\<sigma> a) < 32768)"
    by blast
  from this [rule_format, OF mem] len have
    "length (fmt016b (resolvedValue ?\<sigma> ?a)) = 16"
    "hd (fmt016b (resolvedValue ?\<sigma> ?a)) = CHR ''0''"
    "unat (resolvedValue ?\<sigma> ?a) < 32768"
    by blast+
  with mem len parse_example example_run show ?thesis
    by simp
qed

text \<open>
  C5. Assembling the six lines \<open>@2\<close>, \<open>D=A\<close>, \<open>@3\<close>, \<open>D=D+A\<close>, \<open>@0\<close>, \<open>M=D\<close>
  succeeds and writes exactly the six lines \<open>0000000000000010\<close>, \<open>1110110000010000\<close>,
  \<open>0000000000000011\<close>, \<open>1110000010010000\<close>, \<open>0000000000000000\<close>, \<open>1110001100001000\<close>,
  in that order, whatever the Unicode tables and the order of \<open>range\<close>.
\<close>

theorem assemble_add_program:
  "Assemble ut order bufferWrite ''@2\<newline>D=A\<newline>@3\<newline>D=D+A\<newline>@0\<newline>M=D'' [] =
     (None, ''0000000000000010\<newline>1110110000010000\<newline>0000000000000011\<newline>1110000010010000\<newline>0000000000000000\<newline>1110001100001000\<newline>'')"
  unfolding Assemble_def parse_add
  by (simp add: code_def codeEmit_buffer_A codeEmit_buffer_C resolve_def resolvedValue_def
      fmt_add codeC_add del: codeEmit.simps(2,3))

text \<open>
  C6 fails on the code, which misses its own rule that a symbol cannot start with a digit.
  \<open>parseAInstruction\<close> tests the first byte of the literal with \<open>unicode.IsDigit\<close>, not
  its first character. The line made of \<open>@\<close> and the Arabic-Indic digit three (U+0663, the
  bytes D9 A3) starts with a digit and is no decimal number, yet it is accepted: the byte D9
  is no digit, so the literal is checked as a symbol, and there \<open>containsOnly\<close> decodes the
  character and finds a digit, which a symbol may contain. The line is assembled as a
  variable at address 16. Whatever the Unicode tables say, the line is never read as a
  number.
\<close>

theorem parseAInstruction_accepts_leading_digit:
  "DecodeRuneInString [CHR 0xD9, CHR 0xA3] = (0x663, 2)
   \<and> IsDigit arabicIndicDigits 0x663
   \<and> parseAInstruction arabicIndicDigits [CHR ''@'', CHR 0xD9, CHR 0xA3] =
       Inr \<lparr>Literal = [CHR 0xD9, CHR 0xA3], IsSymbol = True, Value = 0\<rparr>
   \<and> parseAInstruction ut [CHR ''@'', CHR 0xD9, CHR 0xA3] =
       (if validSymbolChars ut 0x663
        then Inr \<lparr>Literal = [CHR 0xD9, CHR 0xA3], IsSymbol = True, Value = 0\<rparr>
        else Inl (ParseError IllegalCharacter))
   \<and> Assemble arabicIndicDigits predefinedEntries bufferWrite [CHR ''@'', CHR 0xD9, CHR 0xA3] [] =
       (None, ''0000000000010000\<newline>'')"
  using parseA_three_any [of ut]
  by (simp only: decode_three digit_three parseA_three assemble_three simp_thms)

text \<open>
  C7, as the code has it. In a sequence without duplicate or reserved labels, the address
  registered for each label is the number of instructions that are not labels and stand
  strictly before its declaration, modulo 65536: the program counter is a \<open>uint16\<close> and
  wraps. So it is that number itself when fewer than 65536 instructions precede. In a
  successful run every \<open>@L\<close> that names a declared label is encoded with the address
  registered for \<open>L\<close>, wherever it stands, before or after the declaration.
\<close>

theorem label_addresses:
  assumes "distinct (labelsDeclared ins)"
    and "set (labelsDeclared ins) \<inter> dom predefinedSymbols = {}"
    and "mset order = mset predefinedEntries"
  shows "\<exists>st. codeLabels ins 0 Map.empty = Inr st
     \<and> (\<forall>i l. i < length ins \<and> ins ! i = LabelIns l \<longrightarrow>
          (\<exists>v. st (label.Literal l) = Some v \<and> unat v = instructionsBefore ins i mod 65536))
     \<and> (\<forall>out out'. code order bufferWrite ins out = (None, out') \<longrightarrow>
          out' = out @ concat (map (lineOf (finalSymbolTable order bufferWrite ins out)) ins)
          \<and> (\<forall>a. IsSymbol a \<and> Literal a \<in> set (labelsDeclared ins) \<longrightarrow>
                Some (resolvedValue (finalSymbolTable order bufferWrite ins out) a)
                  = st (Literal a)))"
proof -
  from assms(1,2) codeLabels_succeeds [of ins 0 Map.empty]
  obtain st where st: "codeLabels ins 0 Map.empty = Inr st"
    by auto
  have "\<exists>v. st (label.Literal l) = Some v \<and> unat v = instructionsBefore ins i mod 65536"
    if "i < length ins" "ins ! i = LabelIns l" for i l
    using codeLabels_address [OF st that] by (simp add: unat_label_address)
  moreover have "out' = out @ concat (map (lineOf (finalSymbolTable order bufferWrite ins out)) ins)
          \<and> (\<forall>a. IsSymbol a \<and> Literal a \<in> set (labelsDeclared ins) \<longrightarrow>
                Some (resolvedValue (finalSymbolTable order bufferWrite ins out) a)
                  = st (Literal a))"
    if run: "code order bufferWrite ins out = (None, out')" for out out'
  proof -
    from successful_run_facts [OF assms(3) run] st have
      out: "out' = out @ concat (map (lineOf (finalSymbolTable order bufferWrite ins out)) ins)"
      and keeps: "\<forall>k v. (st ++ predefinedSymbols) k = Some v
            \<longrightarrow> finalSymbolTable order bufferWrite ins out k = Some v"
      by auto
    have "Some (resolvedValue (finalSymbolTable order bufferWrite ins out) a) = st (Literal a)"
      if a: "IsSymbol a" "Literal a \<in> set (labelsDeclared ins)" for a
    proof -
      from a(2) codeLabels_dom [OF st] obtain v where v: "st (Literal a) = Some v"
        by auto
      from map_add_label [OF st v] keeps
      have "finalSymbolTable order bufferWrite ins out (Literal a) = Some v"
        by simp
      with v a(1) show ?thesis by (simp add: resolvedValue_def)
    qed
    with out show ?thesis by blast
  qed
  ultimately show ?thesis
    using st by blast
qed

text \<open>
  C7 as stated fails: in the sequence parsed from 65536 lines \<open>0\<close> followed by
  \<open>(END)\<close> and \<open>@END\<close>, the label \<open>END\<close> is registered at address 0, not at
  65536, and \<open>@END\<close> is encoded as 0.
\<close>

theorem label_address_counterexample:
  "distinct (labelsDeclared (longProgram 65536))
   \<and> set (labelsDeclared (longProgram 65536)) \<inter> dom predefinedSymbols = {}
   \<and> longProgram 65536 ! 65536 = LabelIns \<lparr>label.Literal = ''END''\<rparr>
   \<and> instructionsBefore (longProgram 65536) 65536 = 65536
   \<and> (\<exists>st. codeLabels (longProgram 65536) 0 Map.empty = Inr st \<and> st ''END'' = Some 0)
   \<and> code predefinedEntries bufferWrite (longProgram 65536) [] =
       (None, concat (replicate 65536 ''1110101010000000\<newline>'') @ ''0000000000000000\<newline>'')
   \<and> parse \<lparr>Letter = \<lambda>r. False, Digit = \<lambda>r. False\<rparr>
        (concat (replicate 65536 ''0\<newline>'') @ ''(END)\<newline>@END'') = Inr (longProgram 65536)"
proof -
  have f: "fmt016b (of_nat 65536) = ''0000000000000000''"
    by (rule fmt016b_eq) (simp_all add: binaryValue_def)
  have len: "65536 < length (longProgram 65536)"
    by (simp add: longProgram_def)
  from codeLabels_succeeds [of "longProgram 65536" 0 Map.empty]
  obtain st where st: "codeLabels (longProgram 65536) 0 Map.empty = Inr st"
    using END_not_predefined by (auto simp: labelsDeclared_long)
  from codeLabels_address [OF st len long_nth] have "st ''END'' = Some 0"
    by (simp add: long_before)
  with st have "\<exists>st. codeLabels (longProgram 65536) 0 Map.empty = Inr st \<and> st ''END'' = Some 0"
    by blast
  moreover from long_run [of 65536, unfolded f] have
    "code predefinedEntries bufferWrite (longProgram 65536) [] =
       (None, concat (replicate 65536 ''1110101010000000\<newline>'') @ ''0000000000000000\<newline>'')"
    by simp
  ultimately show ?thesis
    using END_not_predefined
    by (simp add: labelsDeclared_long long_nth long_before parse_long)
qed

text \<open>The theorem at the example program, whose label \<open>LOOP\<close> stands at address 1.\<close>

theorem label_addresses_witness:
  "distinct (labelsDeclared exampleProgram)
   \<and> set (labelsDeclared exampleProgram) \<inter> dom predefinedSymbols = {}
   \<and> mset predefinedEntries = mset predefinedEntries
   \<and> exampleProgram ! 1 = LabelIns \<lparr>label.Literal = ''LOOP''\<rparr>
   \<and> code predefinedEntries bufferWrite exampleProgram [] =
       (None, ''0000000000010000\<newline>0000000000000001\<newline>0000000000000001\<newline>0000000000000101\<newline>0000000000010001\<newline>0000000000010000\<newline>1110110000010000\<newline>'')
   \<and> (\<exists>st. codeLabels exampleProgram 0 Map.empty = Inr st
         \<and> (\<exists>v. st ''LOOP'' = Some v \<and> unat v = 1 mod 65536)
         \<and> Some (resolvedValue (finalSymbolTable predefinedEntries bufferWrite exampleProgram [])
                   \<lparr>Literal = ''LOOP'', IsSymbol = True, Value = 0\<rparr>) = st ''LOOP'')"
proof -
  note h = example_label_facts(1,2)
  from label_addresses [OF h refl] obtain st where
    st: "codeLabels exampleProgram 0 Map.empty = Inr st"
    and addr: "\<forall>i l. i < length exampleProgram \<and> exampleProgram ! i = LabelIns l \<longrightarrow>
          (\<exists>v. st (label.Literal l) = Some v
             \<and> unat v = instructionsBefore exampleProgram i mod 65536)"
    and res: "\<forall>out out'. code predefinedEntries bufferWrite exampleProgram out = (None, out') \<longrightarrow>
          out' = out @ concat (map (lineOf (finalSymbolTable predefinedEntries bufferWrite
                                              exampleProgram out)) exampleProgram)
          \<and> (\<forall>a. IsSymbol a \<and> Literal a \<in> set (labelsDeclared exampleProgram) \<longrightarrow>
                Some (resolvedValue (finalSymbolTable predefinedEntries bufferWrite
                                       exampleProgram out) a) = st (Literal a))"
    by blast
  have "1 < length exampleProgram \<and> exampleProgram ! 1 = LabelIns \<lparr>label.Literal = ''LOOP''\<rparr>"
    using example_label_facts(4,6) by simp
  from addr [rule_format, OF this]
  have a: "\<exists>v. st ''LOOP'' = Some v \<and> unat v = 1 mod 65536"
    unfolding example_label_facts(5) by simp
  from res [rule_format, OF example_run]
  have "\<forall>a. IsSymbol a \<and> Literal a \<in> set (labelsDeclared exampleProgram) \<longrightarrow>
      Some (resolvedValue (finalSymbolTable predefinedEntries bufferWrite exampleProgram []) a)
        = st (Literal a)"
    by blast
  from this [rule_format, of "\<lparr>Literal = ''LOOP'', IsSymbol = True, Value = 0\<rparr>"]
  have b: "Some (resolvedValue (finalSymbolTable predefinedEntries bufferWrite exampleProgram [])
                   \<lparr>Literal = ''LOOP'', IsSymbol = True, Value = 0\<rparr>) = st ''LOOP''"
    by (simp add: example_label_facts)
  from st a b have "\<exists>st. codeLabels exampleProgram 0 Map.empty = Inr st
         \<and> (\<exists>v. st ''LOOP'' = Some v \<and> unat v = 1 mod 65536)
         \<and> Some (resolvedValue (finalSymbolTable predefinedEntries bufferWrite exampleProgram [])
                   \<lparr>Literal = ''LOOP'', IsSymbol = True, Value = 0\<rparr>) = st ''LOOP''"
    by blast
  with h example_label_facts(4) example_run show ?thesis
    by simp
qed

text \<open>
  C8, as the code has it. In a successful run the variables (the symbols that are neither
  predefined nor labels), taken in the order of their first occurrence and counted from 0,
  get the addresses \<open>(16 + j) mod 65536\<close>: the next variable address is a \<open>uint16\<close> and
  wraps. So they are 16, 17, 18, ... in strictly increasing order as long as there are at most
  65520 variables. Every occurrence of a variable is encoded with the address of its first
  occurrence.
\<close>

theorem variable_addresses:
  assumes "mset order = mset predefinedEntries"
    and "code order bufferWrite ins out = (None, out')"
  shows "out' = out @ concat (map (lineOf (finalSymbolTable order bufferWrite ins out)) ins)
     \<and> distinct (variables ins)
     \<and> (\<forall>j < length (variables ins).
          \<exists>v. finalSymbolTable order bufferWrite ins out (variables ins ! j) = Some v
             \<and> unat v = (16 + j) mod 65536)
     \<and> (\<forall>a j. AIns a \<in> set ins \<and> IsSymbol a \<and> j < length (variables ins)
                \<and> Literal a = variables ins ! j \<longrightarrow>
            unat (resolvedValue (finalSymbolTable order bufferWrite ins out) a)
              = (16 + j) mod 65536)"
proof -
  from successful_run_facts [OF assms] have
    out: "out' = out @ concat (map (lineOf (finalSymbolTable order bufferWrite ins out)) ins)"
    and vars: "\<forall>j < length (variables ins).
       finalSymbolTable order bufferWrite ins out (variables ins ! j) = Some (16 + of_nat j)"
    by auto
  from vars have "\<forall>j < length (variables ins).
          \<exists>v. finalSymbolTable order bufferWrite ins out (variables ins ! j) = Some v
             \<and> unat v = (16 + j) mod 65536"
    by (simp add: unat_variable_address)
  moreover from vars have "\<forall>a j. AIns a \<in> set ins \<and> IsSymbol a \<and> j < length (variables ins)
                \<and> Literal a = variables ins ! j \<longrightarrow>
            unat (resolvedValue (finalSymbolTable order bufferWrite ins out) a)
              = (16 + j) mod 65536"
    by (simp add: resolvedValue_def unat_variable_address)
  ultimately show ?thesis
    using out distinct_variables by blast
qed

text \<open>
  C8 as stated fails: the 65521 lines \<open>@v0\<close>, \<open>@v1\<close>, \<open>@v10\<close>, ... use 65521 different
  variables; the run succeeds, the last but one gets the address 65535 and the last one the
  address 0, and these are the last two lines of the output.
\<close>

theorem variable_address_counterexample:
  "fst (code predefinedEntries bufferWrite (manyVariables 65521) []) = None
   \<and> length (variables (manyVariables 65521)) = 65521
   \<and> variables (manyVariables 65521) ! 65519 = CHR ''v'' # binaryDigits 65519
   \<and> variables (manyVariables 65521) ! 65520 = CHR ''v'' # binaryDigits 65520
   \<and> finalSymbolTable predefinedEntries bufferWrite (manyVariables 65521) []
        (CHR ''v'' # binaryDigits 65519) = Some 65535
   \<and> finalSymbolTable predefinedEntries bufferWrite (manyVariables 65521) []
        (CHR ''v'' # binaryDigits 65520) = Some 0
   \<and> parse \<lparr>Letter = \<lambda>r. False, Digit = \<lambda>r. False\<rparr> (manyLines 65521)
        = Inr (manyVariables 65521)
   \<and> (\<exists>pre. code predefinedEntries bufferWrite (manyVariables 65521) [] =
         (None, pre @ ''1111111111111111\<newline>0000000000000000\<newline>''))"
proof -
  have "finalSymbolTable predefinedEntries bufferWrite (manyVariables 65521) []
        (CHR ''v'' # binaryDigits 65519) = Some 65535"
    using many_table [of 65519 65521 "[]"] by simp
  moreover have "finalSymbolTable predefinedEntries bufferWrite (manyVariables 65521) []
        (CHR ''v'' # binaryDigits 65520) = Some 0"
    using many_table [of 65520 65521 "[]"] by simp
  ultimately show ?thesis
    using many_output by (simp add: many_run variables_many parse_many)
qed

text \<open>The theorem at the example program, whose variables are \<open>i\<close> and \<open>sum\<close>.\<close>

theorem variable_addresses_witness:
  "mset predefinedEntries = mset predefinedEntries
   \<and> code predefinedEntries bufferWrite exampleProgram [] =
       (None, ''0000000000010000\<newline>0000000000000001\<newline>0000000000000001\<newline>0000000000000101\<newline>0000000000010001\<newline>0000000000010000\<newline>1110110000010000\<newline>'')
   \<and> variables exampleProgram = [''i'', ''sum'']
   \<and> distinct (variables exampleProgram)
   \<and> (\<exists>v. finalSymbolTable predefinedEntries bufferWrite exampleProgram [] ''sum'' = Some v
         \<and> unat v = (16 + 1) mod 65536)
   \<and> unat (resolvedValue (finalSymbolTable predefinedEntries bufferWrite exampleProgram [])
             \<lparr>Literal = ''i'', IsSymbol = True, Value = 0\<rparr>) = (16 + 0) mod 65536"
proof -
  let ?\<sigma> = "finalSymbolTable predefinedEntries bufferWrite exampleProgram []"
  from variable_addresses [OF refl example_run] have
    d: "distinct (variables exampleProgram)"
    and v: "\<forall>j < length (variables exampleProgram).
          \<exists>v. ?\<sigma> (variables exampleProgram ! j) = Some v \<and> unat v = (16 + j) mod 65536"
    and r: "\<forall>a j. AIns a \<in> set exampleProgram \<and> IsSymbol a \<and> j < length (variables exampleProgram)
                \<and> Literal a = variables exampleProgram ! j \<longrightarrow>
            unat (resolvedValue ?\<sigma> a) = (16 + j) mod 65536"
    by blast+
  from v [rule_format, of 1]
  have a: "\<exists>v. ?\<sigma> ''sum'' = Some v \<and> unat v = (16 + 1) mod 65536"
    by (simp add: example_variables)
  from r [rule_format, of "\<lparr>Literal = ''i'', IsSymbol = True, Value = 0\<rparr>" 0]
  have b: "unat (resolvedValue ?\<sigma> \<lparr>Literal = ''i'', IsSymbol = True, Value = 0\<rparr>)
      = (16 + 0) mod 65536"
    by (simp add: example_variables) (simp add: exampleProgram_def)
  from d a b example_run example_variables show ?thesis
    by simp
qed

text \<open>
  C9, as the code has it. When a sequence declares a label twice or declares a label with
  the name of a predefined symbol, the run fails at the first declaration that does either,
  with a duplicate-label error if that declaration repeats an earlier one and with a
  reserved-symbol error otherwise, and nothing is written, whatever the writer.
\<close>

theorem first_offending_label:
  assumes "\<not> (distinct (labelsDeclared ins)
              \<and> set (labelsDeclared ins) \<inter> dom predefinedSymbols = {})"
  shows "\<exists>pre l rest. ins = pre @ LabelIns l # rest
           \<and> distinct (labelsDeclared pre)
           \<and> set (labelsDeclared pre) \<inter> dom predefinedSymbols = {}
           \<and> (label.Literal l \<in> set (labelsDeclared pre)
                 \<or> label.Literal l \<in> dom predefinedSymbols)
           \<and> code order wr ins out =
                (Some (if label.Literal l \<in> set (labelsDeclared pre)
                       then DuplicateLabelError (label.Literal l)
                       else ReservedSymbolError (label.Literal l)), out)"
proof -
  from codeLabels_fails [OF assms] obtain pre l rest where
    "ins = pre @ LabelIns l # rest" "distinct (labelsDeclared pre)"
    "set (labelsDeclared pre) \<inter> dom predefinedSymbols = {}"
    "label.Literal l \<in> set (labelsDeclared pre) \<or> label.Literal l \<in> dom predefinedSymbols"
    "codeLabels ins 0 Map.empty =
       Inl (if label.Literal l \<in> set (labelsDeclared pre)
            then DuplicateLabelError (label.Literal l)
            else ReservedSymbolError (label.Literal l))"
    by blast
  then show ?thesis
    by (intro exI [of _ pre] exI [of _ l] exI [of _ rest]) (simp add: code_def)
qed

text \<open>
  C9 as stated fails: a sequence that declares \<open>R0\<close> and then \<open>X\<close> twice declares a
  label twice, and the run fails with the reserved-symbol error of \<open>R0\<close>.
\<close>

theorem label_error_counterexample:
  "\<not> distinct (labelsDeclared
       [LabelIns \<lparr>label.Literal = ''R0''\<rparr>, LabelIns \<lparr>label.Literal = ''X''\<rparr>,
        LabelIns \<lparr>label.Literal = ''X''\<rparr>])
   \<and> code predefinedEntries bufferWrite
       [LabelIns \<lparr>label.Literal = ''R0''\<rparr>, LabelIns \<lparr>label.Literal = ''X''\<rparr>,
        LabelIns \<lparr>label.Literal = ''X''\<rparr>] []
     = (Some (ReservedSymbolError ''R0''), [])"
  by (simp add: code_def predefinedSymbols_def predefinedEntries_def)

text \<open>The theorem at the sequence that declares \<open>INFINITE_LOOP\<close> twice.\<close>

theorem first_offending_label_witness:
  "\<not> (distinct (labelsDeclared
         [LabelIns \<lparr>label.Literal = ''INFINITE_LOOP''\<rparr>,
          LabelIns \<lparr>label.Literal = ''INFINITE_LOOP''\<rparr>])
       \<and> set (labelsDeclared
         [LabelIns \<lparr>label.Literal = ''INFINITE_LOOP''\<rparr>,
          LabelIns \<lparr>label.Literal = ''INFINITE_LOOP''\<rparr>]) \<inter> dom predefinedSymbols = {})
   \<and> (\<exists>pre l rest.
         [LabelIns \<lparr>label.Literal = ''INFINITE_LOOP''\<rparr>,
          LabelIns \<lparr>label.Literal = ''INFINITE_LOOP''\<rparr>] = pre @ LabelIns l # rest
         \<and> distinct (labelsDeclared pre)
         \<and> set (labelsDeclared pre) \<inter> dom predefinedSymbols = {}
         \<and> (label.Literal l \<in> set (labelsDeclared pre)
               \<or> label.Literal l \<in> dom predefinedSymbols)
         \<and> code predefinedEntries bufferWrite
              [LabelIns \<lparr>label.Literal = ''INFINITE_LOOP''\<rparr>,
               LabelIns \<lparr>label.Literal = ''INFINITE_LOOP''\<rparr>] [] =
              (Some (if label.Literal l \<in> set (labelsDeclared pre)
                     then DuplicateLabelError (label.Literal l)
                     else ReservedSymbolError (label.Literal l)), []))"
proof -
  have h: "\<not> (distinct (labelsDeclared
         [LabelIns \<lparr>label.Literal = ''INFINITE_LOOP''\<rparr>,
          LabelIns \<lparr>label.Literal = ''INFINITE_LOOP''\<rparr>])
       \<and> set (labelsDeclared
         [LabelIns \<lparr>label.Literal = ''INFINITE_LOOP''\<rparr>,
          LabelIns \<lparr>label.Literal = ''INFINITE_LOOP''\<rparr>]) \<inter> dom predefinedSymbols = {})"
    by simp
  show ?thesis
    using h first_offending_label [OF h, of predefinedEntries bufferWrite "[]"] by blast
qed

text \<open>
  C10. The model is a function of the input, the writer and the order in which \<open>range\<close>
  visits \<open>predefinedSymbols\<close>, the one thing Go leaves open. Two runs on the same input
  return the same error or success and leave the sink in the same state, whatever orders
  \<open>range\<close> takes.
\<close>

theorem range_order_irrelevant:
  assumes "mset order1 = mset predefinedEntries" and "mset order2 = mset predefinedEntries"
  shows "Assemble ut order1 wr r out = Assemble ut order2 wr r out"
proof -
  have "code order1 wr instructions out = code order2 wr instructions out" for instructions
    using assms by (simp add: code_def rangeStore_any_order split: sum.splits)
  then show ?thesis
    by (simp add: Assemble_def split: sum.splits)
qed

text \<open>The theorem at the order of the source and its reverse.\<close>

theorem range_order_irrelevant_witness:
  "mset predefinedEntries = mset predefinedEntries
   \<and> mset (rev predefinedEntries) = mset predefinedEntries
   \<and> Assemble \<lparr>Letter = \<lambda>r. False, Digit = \<lambda>r. False\<rparr> predefinedEntries bufferWrite
        ''@R1\<newline>@counter\<newline>D=M'' []
     = Assemble \<lparr>Letter = \<lambda>r. False, Digit = \<lambda>r. False\<rparr> (rev predefinedEntries) bufferWrite
        ''@R1\<newline>@counter\<newline>D=M'' []"
  using range_order_irrelevant [of predefinedEntries "rev predefinedEntries"
      "\<lparr>Letter = \<lambda>r. False, Digit = \<lambda>r. False\<rparr>" bufferWrite "''@R1\<newline>@counter\<newline>D=M''" "[]"]
  by simp

end
